theory Spec2Isabelle
  imports Main "HOL-Library.Monad_Syntax"
begin

unbundle bit_operations_syntax

section \<open>Byte slices and the run-time panic\<close>

text \<open>
  A Go \<^verbatim>\<open>[]byte\<close> and a Go \<^verbatim>\<open>string\<close> are both sequences of bytes; a \<^typ>\<open>char\<close> of
  HOL is one byte, so both are modelled as \<^typ>\<open>char list\<close>. An index or a slice bound
  out of range panics in Go: every function that can panic returns an option, and
  \<^term>\<open>None\<close> is the run-time panic. Slice bounds are checked against the length (Go
  checks a byte slice's upper bound against its capacity, which is at least the length).
\<close>

type_synonym byte = char

type_synonym bytes = "char list"

text \<open>\<^verbatim>\<open>s[i]\<close>\<close>

definition at :: "bytes \<Rightarrow> int \<Rightarrow> byte option" where
  "at s i = (if 0 \<le> i \<and> i < int (length s) then Some (s ! nat i) else None)"

text \<open>\<^verbatim>\<open>s[a:b]\<close>, \<^verbatim>\<open>s[a:]\<close> and \<^verbatim>\<open>s[:b]\<close>\<close>

definition slice :: "bytes \<Rightarrow> int \<Rightarrow> int \<Rightarrow> bytes option" where
  "slice s a b =
     (if 0 \<le> a \<and> a \<le> b \<and> b \<le> int (length s)
      then Some (take (nat (b - a)) (drop (nat a) s)) else None)"

definition sliceFrom :: "bytes \<Rightarrow> int \<Rightarrow> bytes option" where
  "sliceFrom s a = slice s a (int (length s))"

definition sliceTo :: "bytes \<Rightarrow> int \<Rightarrow> bytes option" where
  "sliceTo s b = slice s 0 b"

text \<open>\<^verbatim>\<open>bytes.IndexByte(s, c)\<close>: the index of the first \<open>c\<close> in \<open>s\<close>, or \<open>-1\<close>.\<close>

fun IndexByte :: "bytes \<Rightarrow> byte \<Rightarrow> int" where
  "IndexByte [] c = - 1"
| "IndexByte (b # bs) c =
     (if b = c then 0
      else (let k = IndexByte bs c in if k = - 1 then - 1 else 1 + k))"

section \<open>strconv.Atoi\<close>

text \<open>
  \<^verbatim>\<open>strconv.Atoi\<close>: an optional sign \<^verbatim>\<open>+\<close> or \<^verbatim>\<open>-\<close>, then at least one decimal digit and
  nothing else; \<^term>\<open>None\<close> is a non-nil \<^verbatim>\<open>err\<close> (syntax, or a value outside the 64-bit
  \<^verbatim>\<open>int\<close>).
\<close>

fun digitsVal :: "bytes \<Rightarrow> nat \<Rightarrow> nat option" where
  "digitsVal [] acc = Some acc"
| "digitsVal (c # cs) acc =
     (if 48 \<le> (of_char c :: nat) \<and> (of_char c :: nat) \<le> 57
      then digitsVal cs (acc * 10 + (of_char c - 48)) else None)"

definition Atoi :: "bytes \<Rightarrow> int option" where
  "Atoi s =
     (case s of
        [] \<Rightarrow> None
      | c # cs \<Rightarrow>
          if c = CHR ''-'' then
            (if cs = [] then None
             else case digitsVal cs 0 of
                    None \<Rightarrow> None
                  | Some v \<Rightarrow> if v \<le> 2 ^ 63 then Some (- int v) else None)
          else if c = CHR ''+'' then
            (if cs = [] then None
             else case digitsVal cs 0 of
                    None \<Rightarrow> None
                  | Some v \<Rightarrow> if v < 2 ^ 63 then Some (int v) else None)
          else
            (case digitsVal s 0 of
               None \<Rightarrow> None
             | Some v \<Rightarrow> if v < 2 ^ 63 then Some (int v) else None))"

section \<open>The priority prefix\<close>

text \<open>
  Lines 123 to 136 of \<^verbatim>\<open>receiver\<close>. The result is \<open>(hasPrio, prio, pkt)\<close> after the block;
  \<^verbatim>\<open>pkt[0]\<close> panics on an empty packet.
  \<^verbatim>\<open>
  prio := 13 // default priority
  hasPrio := false
  if pkt[0] == '<' {
      n = 1 + bytes.IndexByte(pkt[1:], '>')
      if n > 1 && n < 5 {
          p, err := strconv.Atoi(string(pkt[1:n]))
          if err == nil && p >= 0 {
              hasPrio = true
              prio = p
              pkt = pkt[n+1:]
          }
      }
  }
  \<close>
\<close>

definition parsePriority :: "bytes \<Rightarrow> (bool \<times> int \<times> bytes) option" where
  "parsePriority pkt = do {
     b0 \<leftarrow> at pkt 0;
     if b0 = CHR ''<'' then do {
       t \<leftarrow> sliceFrom pkt 1;
       let n = 1 + IndexByte t (CHR ''>'');
       if 1 < n \<and> n < 5 then do {
         tok \<leftarrow> slice pkt 1 n;
         case Atoi tok of
           None \<Rightarrow> Some (False, 13, pkt)
         | Some p \<Rightarrow>
             if 0 \<le> p then do {
               rest \<leftarrow> sliceFrom pkt (n + 1);
               Some (True, p, rest)
             } else Some (False, 13, pkt)
       } else Some (False, 13, pkt)
     } else Some (False, 13, pkt)
   }"

section \<open>UTF-8 decoding\<close>

text \<open>
  A \<^verbatim>\<open>rune\<close> is a Unicode code point (Go's \<^verbatim>\<open>int32\<close>; every value here lies between 0 and
  \<open>0x10FFFF\<close>). \<^verbatim>\<open>utf8.DecodeRune\<close> returns the first rune of a byte string and its width
  in bytes; a byte that starts no valid encoding decodes as \<^verbatim>\<open>RuneError\<close> of width 1,
  and the empty string as \<^verbatim>\<open>RuneError\<close> of width 0.
\<close>

type_synonym rune = nat

definition RuneError :: rune where
  "RuneError = 0xFFFD"

definition DecodeRune :: "bytes \<Rightarrow> rune \<times> nat" where
  "DecodeRune s =
     (case s of
        [] \<Rightarrow> (RuneError, 0)
      | b0 # t \<Rightarrow>
          let s0 = (of_char b0 :: nat) in
          if s0 < 0x80 then (s0, 1)
          else if s0 < 0xC2 \<or> 0xF4 < s0 then (RuneError, 1)
          else
            let sz = (if s0 < 0xE0 then 2 else if s0 < 0xF0 then 3 else (4::nat));
                lo = (if s0 = 0xE0 then 0xA0 else if s0 = 0xF0 then 0x90 else (0x80::nat));
                hi = (if s0 = 0xED then 0x9F else if s0 = 0xF4 then 0x8F else (0xBF::nat))
            in
            if length s < sz then (RuneError, 1)
            else
              let s1 = (of_char (s ! 1) :: nat) in
              if s1 < lo \<or> hi < s1 then (RuneError, 1)
              else if sz \<le> 2 then (push_bit 6 (s0 AND 0x1F) OR (s1 AND 0x3F), 2)
              else
                let s2 = (of_char (s ! 2) :: nat) in
                if s2 < 0x80 \<or> 0xBF < s2 then (RuneError, 1)
                else if sz \<le> 3
                then (push_bit 12 (s0 AND 0x0F) OR push_bit 6 (s1 AND 0x3F) OR (s2 AND 0x3F), 3)
                else
                  let s3 = (of_char (s ! 3) :: nat) in
                  if s3 < 0x80 \<or> 0xBF < s3 then (RuneError, 1)
                  else (push_bit 18 (s0 AND 0x07) OR push_bit 12 (s1 AND 0x3F)
                        OR push_bit 6 (s2 AND 0x3F) OR (s3 AND 0x3F), 4))"

text \<open>\<^verbatim>\<open>utf8.RuneStart(b)\<close>: \<open>b\<close> is not a continuation byte.\<close>

definition RuneStart :: "byte \<Rightarrow> bool" where
  "RuneStart b = ((of_char b :: nat) AND 0xC0 \<noteq> 0x80)"

text \<open>
  The loop of \<^verbatim>\<open>utf8.DecodeLastRune\<close> that walks back from \<open>start\<close> to the byte where the
  last rune may begin, no further than \<open>lim\<close>.
\<close>

function scanBack :: "bytes \<Rightarrow> int \<Rightarrow> int \<Rightarrow> int" where
  "scanBack s start lim =
     (if lim \<le> start
      then (if RuneStart (s ! nat start) then start else scanBack s (start - 1) lim)
      else start)"
  by pat_completeness auto
termination
  by (relation "measure (\<lambda>(s, start, lim). nat (start - lim + 1))") auto

declare scanBack.simps [simp del]

text \<open>
  \<^verbatim>\<open>utf8.DecodeLastRune\<close>: the last rune of a byte string and its width. \<open>lastRuneStart\<close>
  is its variable \<^verbatim>\<open>start\<close> when the loop is over and a negative value has been reset
  to 0.
\<close>

definition lastRuneStart :: "bytes \<Rightarrow> int" where
  "lastRuneStart s =
     (let end = int (length s);
          lim = (if end - 4 < 0 then 0 else end - 4);
          start = scanBack s (end - 2) lim
      in if start < 0 then 0 else start)"

definition DecodeLastRune :: "bytes \<Rightarrow> rune \<times> nat" where
  "DecodeLastRune s =
     (let end = int (length s) in
      if end = 0 then (RuneError, 0)
      else
        let r = (of_char (s ! nat (end - 1)) :: nat) in
        if r < 0x80 then (r, 1)
        else
          let start = lastRuneStart s;
              (r, wid) = DecodeRune (drop (nat start) s)
          in if start + int wid \<noteq> end then (RuneError, 1) else (r, wid))"

lemma DecodeRune_width: "s \<noteq> [] \<Longrightarrow> 1 \<le> snd (DecodeRune s)"
  by (cases s) (simp_all add: DecodeRune_def Let_def)

lemma scanBack_le: "scanBack s a l \<le> a"
proof (induction s a l rule: scanBack.induct)
  case (1 s start lim)
  show ?case
    using "1.IH" by (subst scanBack.simps) auto
qed

lemma lastRuneStart_bounds:
  assumes "s \<noteq> []"
  shows "0 \<le> lastRuneStart s" and "lastRuneStart s < int (length s)"
proof -
  show "0 \<le> lastRuneStart s" by (simp add: lastRuneStart_def Let_def)
  have "0 < int (length s)" using assms by simp
  moreover have "scanBack s (int (length s) - 2) l \<le> int (length s) - 2" for l
    by (rule scanBack_le)
  ultimately show "lastRuneStart s < int (length s)"
    unfolding lastRuneStart_def Let_def
    by (smt (verit))
qed

lemma DecodeLastRune_width: "s \<noteq> [] \<Longrightarrow> 1 \<le> snd (DecodeLastRune s)"
proof -
  assume ne: "s \<noteq> []"
  from lastRuneStart_bounds [OF ne] have "nat (lastRuneStart s) < length s" by linarith
  then have "drop (nat (lastRuneStart s)) s \<noteq> []" by simp
  then have w: "1 \<le> snd (DecodeRune (drop (nat (lastRuneStart s)) s))" by (rule DecodeRune_width)
  show ?thesis
    using ne w
    by (auto simp add: DecodeLastRune_def Let_def split: prod.splits)
qed

lemma DecodeLastRune_le: "snd (DecodeLastRune s) \<le> length s"
proof (cases "s = []")
  case True
  then show ?thesis by (simp add: DecodeLastRune_def)
next
  case False
  from lastRuneStart_bounds [OF False] show ?thesis
    using False
    by (auto simp add: DecodeLastRune_def Let_def Suc_le_eq split: prod.splits)
qed

section \<open>Searching and trimming by rune\<close>

text \<open>
  \<^verbatim>\<open>for i, r := range s\<close>: the runes of \<open>s\<close> with the byte offset where each begins,
  starting the count of offsets at \<open>i\<close>.
\<close>

function runesFrom :: "nat \<Rightarrow> bytes \<Rightarrow> (nat \<times> rune) list" where
  "runesFrom i s =
     (if s = [] then []
      else (i, fst (DecodeRune s))
           # runesFrom (i + snd (DecodeRune s)) (drop (snd (DecodeRune s)) s))"
  by pat_completeness auto
termination
proof (relation "measure (\<lambda>(i, s). length s)")
  show "wf (measure (\<lambda>(i, s). length s))" by simp
next
  fix i :: nat and s :: bytes
  assume "s \<noteq> []"
  with DecodeRune_width [of s]
  show "((i + snd (DecodeRune s), drop (snd (DecodeRune s)) s), (i, s))
          \<in> measure (\<lambda>(i, s). length s)"
    by (cases s) auto
qed

declare runesFrom.simps [simp del]

text \<open>
  \<^verbatim>\<open>indexFunc(s, f, truth)\<close> of package \<^verbatim>\<open>strings\<close>: the byte offset of the first rune
  \<open>r\<close> of \<open>s\<close> with \<open>f(r) == truth\<close>, or \<open>-1\<close>.
\<close>

fun firstIndex :: "(rune \<Rightarrow> bool) \<Rightarrow> bool \<Rightarrow> (nat \<times> rune) list \<Rightarrow> int" where
  "firstIndex f truth [] = - 1"
| "firstIndex f truth ((i, r) # rs) = (if f r = truth then int i else firstIndex f truth rs)"

definition indexFunc :: "bytes \<Rightarrow> (rune \<Rightarrow> bool) \<Rightarrow> bool \<Rightarrow> int" where
  "indexFunc s f truth = firstIndex f truth (runesFrom 0 s)"

definition IndexFunc :: "bytes \<Rightarrow> (rune \<Rightarrow> bool) \<Rightarrow> int" where
  "IndexFunc s f = indexFunc s f True"

text \<open>
  \<^verbatim>\<open>lastIndexFunc(s, f, truth)\<close>: the byte offset of the last rune \<open>r\<close> of \<open>s\<close> with
  \<open>f(r) == truth\<close>, or \<open>-1\<close>; the string is decoded from its end. The argument is the
  prefix \<^verbatim>\<open>s[0:i]\<close> that the loop has still to look at.
\<close>

function lastIndexFunc :: "bytes \<Rightarrow> (rune \<Rightarrow> bool) \<Rightarrow> bool \<Rightarrow> int" where
  "lastIndexFunc s f truth =
     (if s = [] then - 1
      else
        let r = fst (DecodeLastRune s);
            i = length s - snd (DecodeLastRune s)
        in if f r = truth then int i else lastIndexFunc (take i s) f truth)"
  by pat_completeness auto
termination
proof (relation "measure (\<lambda>(s, f, truth). length s)")
  show "wf (measure (\<lambda>(s, f, truth). length s))" by simp
next
  fix s :: bytes and f :: "rune \<Rightarrow> bool" and truth :: bool and r :: rune and i :: nat
  assume "s \<noteq> []" and "i = length s - snd (DecodeLastRune s)"
  with DecodeLastRune_width [of s]
  show "((take i s, f, truth), (s, f, truth)) \<in> measure (\<lambda>(s, f, truth). length s)"
    by auto
qed

declare lastIndexFunc.simps [simp del]

text \<open>\<^verbatim>\<open>TrimRightFunc\<close>, \<^verbatim>\<open>TrimLeftFunc\<close> and \<^verbatim>\<open>TrimFunc\<close> (packages \<^verbatim>\<open>bytes\<close> and \<^verbatim>\<open>strings\<close>).\<close>

definition TrimRightFunc :: "bytes \<Rightarrow> (rune \<Rightarrow> bool) \<Rightarrow> bytes" where
  "TrimRightFunc s f =
     (let i = lastIndexFunc s f False;
          i' = (if 0 \<le> i \<and> 0x80 \<le> (of_char (s ! nat i) :: nat)
                then i + int (snd (DecodeRune (drop (nat i) s)))
                else i + 1)
      in take (nat i') s)"

definition TrimLeftFunc :: "bytes \<Rightarrow> (rune \<Rightarrow> bool) \<Rightarrow> bytes" where
  "TrimLeftFunc s f =
     (let i = indexFunc s f False in if i = - 1 then [] else drop (nat i) s)"

definition TrimFunc :: "bytes \<Rightarrow> (rune \<Rightarrow> bool) \<Rightarrow> bytes" where
  "TrimFunc s f = TrimRightFunc (TrimLeftFunc s f) f"

section \<open>The Go library functions taken as parameters\<close>

text \<open>
  The Unicode tables behind \<^verbatim>\<open>unicode.IsLetter\<close>, \<^verbatim>\<open>unicode.IsNumber\<close> and
  \<^verbatim>\<open>unicode.IsSpace\<close>, and \<^verbatim>\<open>time.Parse\<close>, belong to the Go library and depend on its
  version; the decoder takes them as parameters. A time is the number of nanoseconds
  since Go's zero time (January 1, year 1, 00:00:00 UTC), so \<^verbatim>\<open>t.IsZero()\<close> is \<open>t = 0\<close>, and
  the zero value of a \<^verbatim>\<open>time.Time\<close> field is \<open>0\<close>. \<open>ParseRFC3339 v\<close> is
  \<^verbatim>\<open>time.Parse(time.RFC3339, v)\<close> and \<open>ParseStamp v\<close> is \<^verbatim>\<open>time.Parse("Jan _2 15:04:05", v)\<close>;
  \<^term>\<open>None\<close> is a non-nil \<^verbatim>\<open>err\<close>.
\<close>

type_synonym gotime = int

record golib =
  IsLetter :: "rune \<Rightarrow> bool"
  IsNumber :: "rune \<Rightarrow> bool"
  IsSpace :: "rune \<Rightarrow> bool"
  ParseRFC3339 :: "bytes \<Rightarrow> gotime option"
  ParseStamp :: "bytes \<Rightarrow> gotime option"

section \<open>Messages\<close>

text \<open>
  Modelled from the spec: the declaration of \<^verbatim>\<open>Message\<close> is not among the sources. Its
  fields are those the spec's data model lists and \<^verbatim>\<open>receiver\<close> assigns; \<^verbatim>\<open>Severity\<close> and
  \<^verbatim>\<open>Facility\<close> are integers (the priority is at most 999, so \<^verbatim>\<open>prio >> 3\<close> is at most
  124 and fits any integer type of Go). \<^verbatim>\<open>new(Message)\<close> is the message with every
  field zero. \<open>'a\<close> is the type of a network address.
\<close>

record 'a Message =
  Time :: gotime
  Source :: "'a option"
  Facility :: int
  Severity :: int
  Timestamp :: gotime
  Hostname :: bytes
  Tag :: bytes
  Content :: bytes
  Tag1 :: bytes
  Content1 :: bytes

definition newMessage :: "'a Message" where
  "newMessage =
     \<lparr>Time = 0, Source = None, Facility = 0, Severity = 0, Timestamp = 0, Hostname = [],
      Tag = [], Content = [], Tag1 = [], Content1 = []\<rparr>"

section \<open>The decoder\<close>

text \<open>
  The body of the loop of \<^verbatim>\<open>receiver\<close>, from \<^verbatim>\<open>pkt := buf[:n]\<close> (line 117) to the call of
  \<^verbatim>\<open>passToHandlers\<close> (line 192), is the decoder. It reads of the server only the map
  \<^verbatim>\<open>s.tagrunes\<close>; a key that a Go map does not hold reads as \<^verbatim>\<open>false\<close>.
\<close>

definition isNotAlnum :: "golib \<Rightarrow> (rune \<rightharpoonup> bool) \<Rightarrow> rune \<Rightarrow> bool" where
  "isNotAlnum lib tr r =
     (\<not> (IsLetter lib r \<or> IsNumber lib r \<or> (case tr r of None \<Rightarrow> False | Some b \<Rightarrow> b)))"

definition isNulCrLf :: "rune \<Rightarrow> bool" where
  "isNulCrLf r = (r = 0 \<or> r = 13 \<or> r = 10)"

text \<open>
  The two probes of the header (lines 144 and 152). \<^verbatim>\<open>&&\<close> evaluates its right operand
  only when the left one holds.
  \<^verbatim>\<open>
  hasPrio && len(pkt) >= 26 && pkt[25] == ' ' && pkt[15] != ' '
  hasPrio && len(pkt) >= 16 && pkt[15] == ' '
  \<close>
\<close>

definition probeA :: "bool \<Rightarrow> bytes \<Rightarrow> bool option" where
  "probeA hasPrio pkt =
     (if hasPrio \<and> 26 \<le> int (length pkt) then do {
        b25 \<leftarrow> at pkt 25;
        if b25 = CHR '' '' then do {
          b15 \<leftarrow> at pkt 15;
          Some (b15 \<noteq> CHR '' '')
        } else Some False
      } else Some False)"

definition probeB :: "bool \<Rightarrow> bytes \<Rightarrow> bool option" where
  "probeB hasPrio pkt =
     (if hasPrio \<and> 16 \<le> int (length pkt) then do {
        b15 \<leftarrow> at pkt 15;
        Some (b15 = CHR '' '')
      } else Some False)"

text \<open>
  Lines 140 to 160: the value of \<^verbatim>\<open>hostnameOffset\<close> after the header has been looked at.
  In both branches \<^verbatim>\<open>ts, err := time.Parse(...)\<close> declares a new \<^verbatim>\<open>ts\<close> whose scope is the
  branch: the \<^verbatim>\<open>ts\<close> of line 141 keeps the value of \<^verbatim>\<open>time.Now()\<close>, and the parsed time is
  used for the test \<^verbatim>\<open>!ts.IsZero()\<close> only.
  \<^verbatim>\<open>
  hostnameOffset := 0
  ts := time.Now()
  if <probe A> {
      ts, err := time.Parse(time.RFC3339, string(pkt[:25]))
      if err == nil && !ts.IsZero() {
          hostnameOffset = 26
      }
  } else if <probe B> {
      layout := "Jan _2 15:04:05"
      ts, err := time.Parse(layout, string(pkt[:15]))
      if err == nil && !ts.IsZero() {
          hostnameOffset = 16
      }
  }
  \<close>
\<close>

definition headerOffset :: "golib \<Rightarrow> bool \<Rightarrow> bytes \<Rightarrow> int option" where
  "headerOffset lib hasPrio pkt = do {
     a \<leftarrow> probeA hasPrio pkt;
     if a then do {
       v \<leftarrow> sliceTo pkt 25;
       Some (case ParseRFC3339 lib v of
               None \<Rightarrow> 0
             | Some ts \<Rightarrow> if ts \<noteq> 0 then 26 else 0)
     } else do {
       b \<leftarrow> probeB hasPrio pkt;
       if b then do {
         v \<leftarrow> sliceTo pkt 15;
         Some (case ParseStamp lib v of
                 None \<Rightarrow> 0
               | Some ts \<Rightarrow> if ts \<noteq> 0 then 16 else 0)
       } else Some 0
     }
   }"

text \<open>
  Lines 162 to 171. The result is the message, the rest of the packet, and the packet
  that \<^verbatim>\<open>log.Printf\<close> reports as not parsed, if any.
  \<^verbatim>\<open>
  if hostnameOffset == 0 {
      log.Printf("Packet did not parse correctly:\n%v\n", string(pkt[:]))
  } else {
      n = hostnameOffset + bytes.IndexByte(pkt[hostnameOffset:], ' ')
      if n != hostnameOffset-1 {
          m.Timestamp = ts
          m.Hostname = string(pkt[hostnameOffset:n])
          pkt = pkt[n+1:]
      }
  }
  \<close>
\<close>

definition parseHostname ::
  "gotime \<Rightarrow> int \<Rightarrow> 'a Message \<Rightarrow> bytes \<Rightarrow> ('a Message \<times> bytes \<times> bytes option) option" where
  "parseHostname ts hostnameOffset m pkt =
     (if hostnameOffset = 0 then Some (m, pkt, Some pkt)
      else do {
        t \<leftarrow> sliceFrom pkt hostnameOffset;
        let n = hostnameOffset + IndexByte t (CHR '' '');
        if n \<noteq> hostnameOffset - 1 then do {
          h \<leftarrow> slice pkt hostnameOffset n;
          rest \<leftarrow> sliceFrom pkt (n + 1);
          Some (m\<lparr>Timestamp := ts, Hostname := h\<rparr>, rest, None)
        } else Some (m, pkt, None)
      })"

text \<open>
  Lines 174 to 190: the strict split into \<^verbatim>\<open>Tag\<close> and \<^verbatim>\<open>Content\<close>, and the loose split into
  \<^verbatim>\<open>Tag1\<close> and \<^verbatim>\<open>Content1\<close>.
  \<^verbatim>\<open>
  msg := string(bytes.TrimRightFunc(pkt, isNulCrLf))
  n = strings.IndexFunc(msg, s.isNotAlnum)
  if n != -1 {
      m.Tag = msg[:n]
      m.Content = msg[n:]
  } else {
      m.Content = msg
  }
  msg = strings.TrimFunc(msg, unicode.IsSpace)
  n = strings.IndexFunc(msg, unicode.IsSpace)
  if n != -1 {
      m.Tag1 = msg[:n]
      m.Content1 = strings.TrimLeftFunc(msg[n+1:], unicode.IsSpace)
  } else {
      m.Content1 = msg
  }
  \<close>
\<close>

definition strictSplit :: "golib \<Rightarrow> (rune \<rightharpoonup> bool) \<Rightarrow> 'a Message \<Rightarrow> bytes \<Rightarrow> 'a Message option" where
  "strictSplit lib tr m msg =
     (let n = IndexFunc msg (isNotAlnum lib tr) in
      if n \<noteq> - 1 then do {
        t \<leftarrow> sliceTo msg n;
        c \<leftarrow> sliceFrom msg n;
        Some (m\<lparr>Tag := t, Content := c\<rparr>)
      } else Some (m\<lparr>Content := msg\<rparr>))"

definition looseSplit :: "golib \<Rightarrow> 'a Message \<Rightarrow> bytes \<Rightarrow> 'a Message option" where
  "looseSplit lib m msg0 =
     (let msg = TrimFunc msg0 (IsSpace lib);
          n = IndexFunc msg (IsSpace lib)
      in
      if n \<noteq> - 1 then do {
        t \<leftarrow> sliceTo msg n;
        r \<leftarrow> sliceFrom msg (n + 1);
        Some (m\<lparr>Tag1 := t, Content1 := TrimLeftFunc r (IsSpace lib)\<rparr>)
      } else Some (m\<lparr>Content1 := msg\<rparr>))"

definition parseMsg :: "golib \<Rightarrow> (rune \<rightharpoonup> bool) \<Rightarrow> 'a Message \<Rightarrow> bytes \<Rightarrow> 'a Message option" where
  "parseMsg lib tr m pkt = do {
     let msg = TrimRightFunc pkt isNulCrLf;
     m1 \<leftarrow> strictSplit lib tr m msg;
     looseSplit lib m1 msg
   }"

text \<open>
  The decoder. \<open>now1\<close> is the \<^verbatim>\<open>time.Now()\<close> of line 121, \<open>now2\<close> that of line 141, and \<open>src\<close>
  is \<^verbatim>\<open>conn.RemoteAddr()\<close>. The result is the message handed to the handlers and the
  packet reported by \<^verbatim>\<open>log.Printf\<close>, if any; \<^term>\<open>None\<close> is a run-time panic.
\<close>

definition decode ::
  "golib \<Rightarrow> (rune \<rightharpoonup> bool) \<Rightarrow> gotime \<Rightarrow> gotime \<Rightarrow> 'a option \<Rightarrow> bytes
     \<Rightarrow> ('a Message \<times> bytes option) option" where
  "decode lib tr now1 now2 src pkt = do {
     let m = newMessage\<lparr>Source := src, Time := now1\<rparr>;
     (hasPrio, prio, pkt1) \<leftarrow> parsePriority pkt;
     let m1 = m\<lparr>Severity := prio AND 7, Facility := drop_bit 3 prio\<rparr>;
     let ts = now2;
     hostnameOffset \<leftarrow> headerOffset lib hasPrio pkt1;
     (m2, pkt2, logged) \<leftarrow> parseHostname ts hostnameOffset m1 pkt1;
     m3 \<leftarrow> parseMsg lib tr m2 pkt2;
     Some (m3, logged)
   }"

section \<open>Handlers\<close>

text \<open>
  Modelled from the spec: the declaration of the interface \<^verbatim>\<open>Handler\<close> is not among the
  sources. A handler receives a message or \<^verbatim>\<open>nil\<close> and returns a message or \<^verbatim>\<open>nil\<close>
  (\<^term>\<open>None\<close>); what else it does (I/O, its own state) is a change of a state \<open>'w\<close>.
\<close>

type_synonym ('a, 'w) Handler = "'a Message option \<Rightarrow> 'w \<Rightarrow> 'a Message option \<times> 'w"

text \<open>
  \<^verbatim>\<open>
  func (s *Server) passToHandlers(m *Message) {
      for _, h := range s.handlers {
          m = h.Handle(m)
          if m == nil {
              break
          }
      }
  }
  \<close>
  The result is the state after the loop and the calls of \<^verbatim>\<open>Handle\<close> that the loop has
  made, in order, each with its argument and its result: the call at position \<open>k\<close> of the
  list is the call of the handler at position \<open>k\<close> of \<^verbatim>\<open>s.handlers\<close>.
\<close>

type_synonym 'a call = "'a Message option \<times> 'a Message option"

fun passToHandlers ::
  "('a, 'w) Handler list \<Rightarrow> 'a Message option \<Rightarrow> 'w \<Rightarrow> 'a call list \<times> 'w" where
  "passToHandlers [] m w = ([], w)"
| "passToHandlers (h # hs) m w =
     (case h m w of
        (m', w') \<Rightarrow>
          if m' = None then ([(m, m')], w')
          else (case passToHandlers hs m' w' of (cs, w'') \<Rightarrow> ((m, m') # cs, w'')))"

section \<open>The server\<close>

text \<open>
  \<open>'c\<close> is the type of a listener and \<open>'e\<close> that of an error. \<^verbatim>\<open>s.l.Fatalln(err)\<close> reports
  an error; the logger of \<^verbatim>\<open>NewServer\<close> then halts the whole application, one set with
  \<^verbatim>\<open>SetLogger\<close> may return (lines 29 to 33), so a call has one of two outcomes.
\<close>

datatype 'w outcome = Returns 'w | Exits 'w

record ('c, 'e, 'a, 'w) Server =
  conns :: "'c list"
  handlers :: "('a, 'w) Handler list"
  shutdown :: bool
  tagrunes :: "rune \<rightharpoonup> bool"
  l :: "'e \<Rightarrow> 'w \<Rightarrow> 'w outcome"

definition NewServer :: "('e \<Rightarrow> 'w \<Rightarrow> 'w outcome) \<Rightarrow> ('c, 'e, 'a, 'w) Server" where
  "NewServer stdlog =
     \<lparr>conns = [], handlers = [], shutdown = False, tagrunes = Map.empty, l = stdlog\<rparr>"

definition SetLogger ::
  "('c, 'e, 'a, 'w) Server \<Rightarrow> ('e \<Rightarrow> 'w \<Rightarrow> 'w outcome) \<Rightarrow> ('c, 'e, 'a, 'w) Server" where
  "SetLogger s lg = s\<lparr>l := lg\<rparr>"

definition AddHandler ::
  "('c, 'e, 'a, 'w) Server \<Rightarrow> ('a, 'w) Handler \<Rightarrow> ('c, 'e, 'a, 'w) Server" where
  "AddHandler s h = s\<lparr>handlers := handlers s @ [h]\<rparr>"

text \<open>
  \<^verbatim>\<open>
  func (s *Server) AddAllowedRunes(allowed string) {
      s.tagrunes = make(map[rune]bool)
      for _, runeValue := range allowed {
          s.tagrunes[runeValue] = true
      }
  }
  \<close>
\<close>

definition AddAllowedRunes :: "('c, 'e, 'a, 'w) Server \<Rightarrow> bytes \<Rightarrow> ('c, 'e, 'a, 'w) Server" where
  "AddAllowedRunes s allowed =
     s\<lparr>tagrunes := foldl (\<lambda>m (i, runeValue). m(runeValue \<mapsto> True)) Map.empty (runesFrom 0 allowed)\<rparr>"

text \<open>
  One turn of the loop of \<^verbatim>\<open>receiver\<close> after a packet has been read: the packet is decoded
  and the message goes through the handlers. \<^term>\<open>None\<close> is a run-time panic.
\<close>

definition receive ::
  "golib \<Rightarrow> ('c, 'e, 'a, 'w) Server \<Rightarrow> gotime \<Rightarrow> gotime \<Rightarrow> 'a option \<Rightarrow> bytes \<Rightarrow> 'w
     \<Rightarrow> ('a call list \<times> 'w) option" where
  "receive lib s now1 now2 src pkt w = do {
     (m, logged) \<leftarrow> decode lib (tagrunes s) now1 now2 src pkt;
     Some (passToHandlers (handlers s) (Some m) w)
   }"

text \<open>
  \<^verbatim>\<open>
  func (s *Server) Shutdown() {
      s.shutdown = true
      for _, c := range s.conns {
          err := c.Close()
          if err != nil {
              s.l.Fatalln(err)
          }
      }
      s.passToHandlers(nil)
      s.conns = nil
      s.handlers = nil
  }
  \<close>
  \<open>Close c w\<close> is \<^verbatim>\<open>c.Close()\<close> in the state \<open>w\<close>: the error, if any, and the new state.
  \<open>closeAll\<close> is the loop; its result is the list of the calls it has made (a call of
  \<^verbatim>\<open>Close\<close> with the error it returned, if any) and how it ended.
\<close>

datatype ('c, 'e) event = CloseCall 'c "'e option" | FatallnCall 'e

fun closeAll ::
  "('c \<Rightarrow> 'w \<Rightarrow> 'e option \<times> 'w) \<Rightarrow> ('e \<Rightarrow> 'w \<Rightarrow> 'w outcome) \<Rightarrow> 'c list \<Rightarrow> 'w
     \<Rightarrow> ('c, 'e) event list \<times> 'w outcome" where
  "closeAll Close fatalln [] w = ([], Returns w)"
| "closeAll Close fatalln (c # cs) w =
     (case Close c w of
        (None, w1) \<Rightarrow>
          (case closeAll Close fatalln cs w1 of (evs, r) \<Rightarrow> (CloseCall c None # evs, r))
      | (Some err, w1) \<Rightarrow>
          (case fatalln err w1 of
             Exits w2 \<Rightarrow> ([CloseCall c (Some err), FatallnCall err], Exits w2)
           | Returns w2 \<Rightarrow>
               (case closeAll Close fatalln cs w2 of
                  (evs, r) \<Rightarrow> (CloseCall c (Some err) # FatallnCall err # evs, r))))"

text \<open>
  The result of \<open>Shutdown\<close> is the server, the calls of \<^verbatim>\<open>Close\<close> and \<^verbatim>\<open>Fatalln\<close>, the calls of
  the handlers, and the final state: \<open>Exits\<close> when the logger has halted the application,
  which then runs nothing after that call.
\<close>

definition Shutdown ::
  "('c \<Rightarrow> 'w \<Rightarrow> 'e option \<times> 'w) \<Rightarrow> ('c, 'e, 'a, 'w) Server \<Rightarrow> 'w
     \<Rightarrow> ('c, 'e, 'a, 'w) Server \<times> ('c, 'e) event list \<times> 'a call list \<times> 'w outcome" where
  "Shutdown Close s w =
     (let s1 = s\<lparr>shutdown := True\<rparr> in
      case closeAll Close (l s1) (conns s1) w of
        (evs, Exits w1) \<Rightarrow> (s1, evs, [], Exits w1)
      | (evs, Returns w1) \<Rightarrow>
          (case passToHandlers (handlers s1) None w1 of
             (cs, w2) \<Rightarrow> (s1\<lparr>conns := [], handlers := []\<rparr>, evs, cs, Returns w2)))"

section \<open>Descriptions and examples for the theorems\<close>

text \<open>A string of ASCII bytes.\<close>

definition ascii :: "bytes \<Rightarrow> bool" where
  "ascii s = list_all (\<lambda>b. (of_char b :: nat) < 128) s"

text \<open>
  A library for the examples. Its predicates are those of the package \<^verbatim>\<open>unicode\<close> on the
  ASCII runes, and its parsers know one date each, with the time that \<^verbatim>\<open>time.Parse\<close> returns
  for it: 12:34:56 of February 9, 2013 at +01:00 is 63496006496 seconds after the zero
  time, and 15:04:05 of January 2 in the year 0 (a date without a year) is 31481755
  seconds before it.
\<close>

definition exampleLib :: golib where
  "exampleLib =
     \<lparr>IsLetter = (\<lambda>r. (65 \<le> r \<and> r \<le> 90) \<or> (97 \<le> r \<and> r \<le> 122)),
      IsNumber = (\<lambda>r. 48 \<le> r \<and> r \<le> 57),
      IsSpace = (\<lambda>r. r = 9 \<or> r = 10 \<or> r = 11 \<or> r = 12 \<or> r = 13 \<or> r = 32 \<or> r = 0x85 \<or> r = 0xA0),
      ParseRFC3339 = map_of [(''2013-02-09T12:34:56+01:00'', 63496006496000000000)],
      ParseStamp = map_of [(''Jan  2 15:04:05'', - 31481755000000000)]\<rparr>"

text \<open>
  What one turn of the loop of \<open>closeAll\<close> adds to the list of calls when the logger
  returns: the call of \<^verbatim>\<open>Close\<close>, and after it the call of \<^verbatim>\<open>Fatalln\<close> with the error when
  there is one.
\<close>

definition closeEvents :: "'c \<Rightarrow> 'e option \<Rightarrow> ('c, 'e) event list" where
  "closeEvents c r = (case r of None \<Rightarrow> [CloseCall c None] | Some err \<Rightarrow> [CloseCall c (Some err), FatallnCall err])"

text \<open>
  Handlers that count their calls in the state: \<open>keep\<close> returns its argument, \<open>discard\<close>
  returns \<^verbatim>\<open>nil\<close>, and \<open>answer a\<close> returns the message \<open>a\<close> whatever it receives.
\<close>

definition keep :: "('a, nat) Handler" where
  "keep m n = (m, Suc n)"

definition discard :: "('a, nat) Handler" where
  "discard m n = (None, Suc n)"

definition answer :: "'a Message \<Rightarrow> ('a, nat) Handler" where
  "answer a m n = (Some a, Suc n)"

definition msgA :: "nat Message" where
  "msgA = newMessage\<lparr>Content := ''a''\<rparr>"

definition msgB :: "nat Message" where
  "msgB = newMessage\<lparr>Content := ''b''\<rparr>"

text \<open>
  Listeners are numbers; closing an odd one fails, with the number as the error. The
  logger \<open>report\<close> returns, the logger \<open>halt\<close> ends the application as the logger of
  \<^verbatim>\<open>NewServer\<close> does.
\<close>

definition closeOdd :: "nat \<Rightarrow> nat \<Rightarrow> nat option \<times> nat" where
  "closeOdd c w = (if odd c then Some c else None, Suc w)"

definition report :: "nat \<Rightarrow> nat \<Rightarrow> nat outcome" where
  "report e w = Returns (Suc w)"

definition halt :: "nat \<Rightarrow> nat \<Rightarrow> nat outcome" where
  "halt e w = Exits (Suc w)"

definition server0 :: "(nat \<Rightarrow> nat \<Rightarrow> nat outcome) \<Rightarrow> (nat, nat, nat, nat) Server" where
  "server0 lg =
     \<lparr>conns = [1, 2], handlers = [answer msgA, discard, keep], shutdown = False,
      tagrunes = Map.empty, l = lg\<rparr>"

text \<open>
  A description of the packets in which the decoder finds a priority, to compare with
  \<open>parsePriority\<close>: the packet begins with \<^verbatim>\<open><\<close>, the token up to the first \<^verbatim>\<open>>\<close> after it has one
  to three bytes, and the token is a run of decimal digits, or \<^verbatim>\<open>+\<close> and such a run, or \<^verbatim>\<open>-\<close>
  and a run of zeros.
\<close>

definition isDigit :: "byte \<Rightarrow> bool" where
  "isDigit b = (48 \<le> (of_char b :: nat) \<and> (of_char b :: nat) \<le> 57)"

definition digits :: "bytes \<Rightarrow> bool" where
  "digits s = (s \<noteq> [] \<and> list_all isDigit s)"

definition prefixToken :: "bytes \<Rightarrow> bytes option" where
  "prefixToken pkt =
     (case pkt of
        [] \<Rightarrow> None
      | b # t \<Rightarrow>
          if b = CHR ''<'' \<and> CHR ''>'' \<in> set t
             \<and> 1 \<le> length (takeWhile (\<lambda>c. c \<noteq> CHR ''>'') t)
             \<and> length (takeWhile (\<lambda>c. c \<noteq> CHR ''>'') t) \<le> 3
          then Some (takeWhile (\<lambda>c. c \<noteq> CHR ''>'') t) else None)"

definition signedDigits :: "bytes \<Rightarrow> bool" where
  "signedDigits tok =
     (case tok of
        [] \<Rightarrow> False
      | c # d \<Rightarrow>
          if c = CHR ''+'' then digits d
          else if c = CHR ''-'' then digits d \<and> list_all (\<lambda>b. b = CHR ''0'') d
          else digits tok)"

definition recognized :: "bytes \<Rightarrow> bool" where
  "recognized pkt = (case prefixToken pkt of None \<Rightarrow> False | Some tok \<Rightarrow> signedDigits tok)"

text \<open>A number written in decimal, as \<^verbatim>\<open>strconv.Itoa\<close> writes it.\<close>

fun decimal :: "nat \<Rightarrow> bytes" where
  "decimal n =
     (if n < 10 then [''0123456789'' ! n] else decimal (n div 10) @ [''0123456789'' ! (n mod 10)])"

declare decimal.simps [simp del]

text \<open>A byte between two bounds: a continuation byte of an encoding in UTF-8.\<close>

definition contByte :: "nat \<Rightarrow> nat \<Rightarrow> byte \<Rightarrow> bool" where
  "contByte lo hi c = (lo \<le> (of_char c :: nat) \<and> (of_char c :: nat) \<le> hi)"

text \<open>
  The detection of the header in the words of the specification: layout A holds of a
  packet of at least 26 bytes with a space at offset 25 and none at offset 15 whose
  first 25 bytes parse as a date; layout B of a packet of at least 16 bytes with a space
  at offset 15 whose first 15 bytes parse as a date; layout A is tried first, and when
  it fails layout B is tried. (A date that parses to Go's zero time counts as a failure,
  as \<^verbatim>\<open>!ts.IsZero()\<close> has it.)
\<close>

definition layoutA :: "golib \<Rightarrow> bytes \<Rightarrow> bool" where
  "layoutA lib pkt =
     (26 \<le> length pkt \<and> pkt ! 25 = CHR '' '' \<and> pkt ! 15 \<noteq> CHR '' ''
      \<and> (case ParseRFC3339 lib (take 25 pkt) of None \<Rightarrow> False | Some ts \<Rightarrow> ts \<noteq> 0))"

definition layoutB :: "golib \<Rightarrow> bytes \<Rightarrow> bool" where
  "layoutB lib pkt =
     (16 \<le> length pkt \<and> pkt ! 15 = CHR '' ''
      \<and> (case ParseStamp lib (take 15 pkt) of None \<Rightarrow> False | Some ts \<Rightarrow> ts \<noteq> 0))"

definition headerOffset_spec :: "golib \<Rightarrow> bytes \<Rightarrow> int" where
  "headerOffset_spec lib pkt = (if layoutA lib pkt then 26 else if layoutB lib pkt then 16 else 0)"

text \<open>
  A library agrees with Go's on ASCII when its three predicates are those of the package
  \<^verbatim>\<open>unicode\<close> on the runes below 128.
\<close>

definition asciiAgrees :: "golib \<Rightarrow> bool" where
  "asciiAgrees lib =
     (\<forall>r < 128.
        IsLetter lib r = ((65 \<le> r \<and> r \<le> 90) \<or> (97 \<le> r \<and> r \<le> 122))
      \<and> IsNumber lib r = (48 \<le> r \<and> r \<le> 57)
      \<and> IsSpace lib r = ((9 \<le> r \<and> r \<le> 13) \<or> r = 32))"

section \<open>Strings of ASCII bytes\<close>

lemma runesFrom_Nil [simp]: "runesFrom i [] = []"
  by (simp add: runesFrom.simps)

lemma DecodeRune_ascii: "(of_char b :: nat) < 128 \<Longrightarrow> DecodeRune (b # t) = (of_char b, 1)"
  by (simp add: DecodeRune_def)

lemma runesFrom_ascii:
  "(of_char b :: nat) < 128 \<Longrightarrow> runesFrom i (b # t) = (i, of_char b) # runesFrom (Suc i) t"
  by (subst runesFrom.simps) (simp add: DecodeRune_ascii)

lemma DecodeLastRune_ascii:
  "(of_char b :: nat) < 128 \<Longrightarrow> DecodeLastRune (s @ [b]) = (of_char b, 1)"
  by (simp add: DecodeLastRune_def Let_def nth_append)

lemma lastIndexFunc_Nil [simp]: "lastIndexFunc [] f truth = - 1"
  by (simp add: lastIndexFunc.simps)

lemma lastIndexFunc_snoc_ascii:
  "(of_char b :: nat) < 128 \<Longrightarrow>
   lastIndexFunc (s @ [b]) f truth =
     (if f (of_char b) = truth then int (length s) else lastIndexFunc s f truth)"
  by (subst lastIndexFunc.simps) (simp add: DecodeLastRune_ascii Let_def)

lemma lastIndexFunc_ascii:
  "ascii s \<Longrightarrow>
   lastIndexFunc s f truth = int (length (dropWhile (\<lambda>b. f (of_char b) \<noteq> truth) (rev s))) - 1"
  by (induction s rule: rev_induct) (simp_all add: ascii_def lastIndexFunc_snoc_ascii)

lemma take_length_dropWhile_rev:
  "take (length (dropWhile P (rev s))) s = rev (dropWhile P (rev s))"
proof -
  have "rev s = takeWhile P (rev s) @ dropWhile P (rev s)" by simp
  then have "s = rev (dropWhile P (rev s)) @ rev (takeWhile P (rev s))"
    by (metis rev_append rev_rev_ident)
  then show ?thesis
    by (metis append_eq_conv_conj length_rev)
qed

lemma TrimRightFunc_ascii:
  assumes "ascii s"
  shows "TrimRightFunc s f = rev (dropWhile (\<lambda>b. f (of_char b)) (rev s))"
proof -
  let ?d = "dropWhile (\<lambda>b. f (of_char b)) (rev s)"
  have i: "lastIndexFunc s f False = int (length ?d) - 1"
    using lastIndexFunc_ascii [OF assms, of f False] by simp
  have "length ?d \<le> length s"
    by (metis length_dropWhile_le length_rev)
  have small: "0 < length ?d \<Longrightarrow> (of_char (s ! (length ?d - 1)) :: nat) < 128"
  proof -
    assume "0 < length ?d"
    with \<open>length ?d \<le> length s\<close> have "length ?d - 1 < length s" by arith
    then have "s ! (length ?d - 1) \<in> set s" by simp
    with assms show ?thesis by (simp add: ascii_def list_all_iff)
  qed
  have "TrimRightFunc s f = take (length ?d) s"
  proof (cases "length ?d")
    case 0
    then show ?thesis by (simp add: TrimRightFunc_def i Let_def)
  next
    case (Suc k)
    with small have "(of_char (s ! k) :: nat) < 128" by simp
    with Suc show ?thesis
      by (simp add: TrimRightFunc_def i Let_def nat_add_distrib)
  qed
  then show ?thesis by (simp add: take_length_dropWhile_rev)
qed

section \<open>The decoder returns on every packet that is not empty\<close>

lemma IndexByte_eq:
  "IndexByte s c = (if c \<in> set s then int (length (takeWhile (\<lambda>b. b \<noteq> c) s)) else - 1)"
  by (induction s) (auto simp: Let_def)

lemma IndexByte_range: "IndexByte s c = - 1 \<or> (0 \<le> IndexByte s c \<and> IndexByte s c < int (length s))"
proof (cases "c \<in> set s")
  case True
  then have "length (takeWhile (\<lambda>b. b \<noteq> c) s) < length s"
    by (induction s) auto
  with True show ?thesis by (simp add: IndexByte_eq)
next
  case False
  then show ?thesis by (simp add: IndexByte_eq)
qed

lemma runesFrom_offsets:
  "(k, r) \<in> set (runesFrom i s) \<Longrightarrow> i \<le> k \<and> k < i + length s"
proof (induction i s rule: runesFrom.induct)
  case (1 i s)
  show ?case
  proof (cases "s = []")
    case True
    with "1.prems" show ?thesis by simp
  next
    case False
    from "1.prems" False
    consider "k = i" | "(k, r) \<in> set (runesFrom (i + snd (DecodeRune s)) (drop (snd (DecodeRune s)) s))"
      by (subst (asm) runesFrom.simps) auto
    then show ?thesis
    proof cases
      case 1
      with False show ?thesis by (cases s) auto
    next
      case 2
      from "1.IH" [OF False 2] DecodeRune_width [OF False] show ?thesis by auto
    qed
  qed
qed

lemma firstIndex_range:
  "firstIndex f truth rs = - 1 \<or> (\<exists>k r. (k, r) \<in> set rs \<and> firstIndex f truth rs = int k)"
  by (induction f truth rs rule: firstIndex.induct) auto

lemma indexFunc_range:
  "indexFunc s f truth = - 1 \<or> (0 \<le> indexFunc s f truth \<and> indexFunc s f truth < int (length s))"
  using firstIndex_range [of f truth "runesFrom 0 s"] runesFrom_offsets [of _ _ 0 s]
  by (auto simp: indexFunc_def)

lemma parsePriority_total:
  assumes "pkt \<noteq> []"
  shows "\<exists>h p r. parsePriority pkt = Some (h, p, r)"
proof -
  obtain b t where pkt: "pkt = b # t" using assms by (cases pkt) auto
  show ?thesis
    using IndexByte_range [of t "CHR ''>''"]
    by (auto simp: pkt parsePriority_def at_def sliceFrom_def slice_def Let_def split: option.splits)
qed

lemma headerOffset_total:
  "\<exists>k. headerOffset lib h pkt = Some k \<and>
       (k = 0 \<or> (k = 26 \<and> 26 \<le> length pkt) \<or> (k = 16 \<and> 16 \<le> length pkt))"
  by (auto simp: headerOffset_def probeA_def probeB_def at_def sliceTo_def slice_def
      split: option.splits)

lemma parseHostname_total:
  assumes "0 \<le> k" and "k \<le> int (length pkt)"
  shows "\<exists>m' rest lg. parseHostname ts k m pkt = Some (m', rest, lg)"
  using IndexByte_range [of "drop (nat k) pkt" "CHR '' ''"] assms
  by (auto simp: parseHostname_def sliceFrom_def slice_def Let_def)

lemma strictSplit_total: "\<exists>m'. strictSplit lib tr m msg = Some m'"
  using indexFunc_range [of msg "isNotAlnum lib tr" True]
  by (auto simp: strictSplit_def IndexFunc_def sliceTo_def sliceFrom_def slice_def Let_def)

lemma looseSplit_total: "\<exists>m'. looseSplit lib m msg = Some m'"
  using indexFunc_range [of "TrimFunc msg (IsSpace lib)" "IsSpace lib" True]
  by (auto simp: looseSplit_def IndexFunc_def sliceTo_def sliceFrom_def slice_def Let_def)

lemma parseMsg_total: "\<exists>m'. parseMsg lib tr m pkt = Some m'"
proof -
  obtain m1 where "strictSplit lib tr m (TrimRightFunc pkt isNulCrLf) = Some m1"
    using strictSplit_total by blast
  moreover obtain m2 where "looseSplit lib m1 (TrimRightFunc pkt isNulCrLf) = Some m2"
    using looseSplit_total by blast
  ultimately show ?thesis by (simp add: parseMsg_def Let_def)
qed

lemma decode_total:
  assumes "pkt \<noteq> []"
  shows "\<exists>m lg. decode lib tr now1 now2 src pkt = Some (m, lg)"
proof -
  from parsePriority_total [OF assms]
  obtain h p r where pp: "parsePriority pkt = Some (h, p, r)" by blast
  from headerOffset_total [of lib h r]
  obtain k where k: "headerOffset lib h r = Some k" and kb: "0 \<le> k" "k \<le> int (length r)"
    by auto
  from parseHostname_total [OF kb]
  obtain m' rest lg where ph: "parseHostname now2 k
      (newMessage\<lparr>Source := src, Time := now1, Severity := p AND 7, Facility := drop_bit 3 p\<rparr>) r
      = Some (m', rest, lg)"
    by blast
  from parseMsg_total obtain m3 where "parseMsg lib tr m' rest = Some m3" by blast
  with pp k ph show ?thesis by (simp add: decode_def)
qed

section \<open>The calls that a dispatch makes\<close>

lemma passToHandlers_Cons_None:
  "h m w = (None, w1) \<Longrightarrow> passToHandlers (h # hs) m w = ([(m, None)], w1)"
  by simp

lemma passToHandlers_Cons_Some:
  "h m w = (Some m1, w1) \<Longrightarrow>
   passToHandlers (h # hs) m w =
     ((m, Some m1) # fst (passToHandlers hs (Some m1) w1), snd (passToHandlers hs (Some m1) w1))"
  by (simp split: prod.splits)

lemma calls_length: "passToHandlers hs m w = (cs, w') \<Longrightarrow> length cs \<le> length hs"
proof (induction hs arbitrary: m w cs w')
  case Nil
  then show ?case by simp
next
  case (Cons h hs)
  obtain m1 w1 where h: "h m w = (m1, w1)" by (cases "h m w")
  show ?case
  proof (cases m1)
    case None
    with h Cons.prems show ?thesis by auto
  next
    case (Some a)
    obtain cs1 w2 where r: "passToHandlers hs (Some a) w1 = (cs1, w2)"
      by (cases "passToHandlers hs (Some a) w1")
    from Cons.IH [OF r] h Some r Cons.prems show ?thesis by auto
  qed
qed

lemma calls_first:
  "passToHandlers hs m w = (cs, w') \<Longrightarrow> hs \<noteq> [] \<Longrightarrow> cs \<noteq> [] \<and> fst (hd cs) = m"
  by (cases hs) (auto split: prod.splits if_splits)

lemma calls_chain:
  "passToHandlers hs m w = (cs, w') \<Longrightarrow> Suc i < length cs \<Longrightarrow> fst (cs ! Suc i) = snd (cs ! i)"
proof (induction hs arbitrary: m w cs w' i)
  case Nil
  then show ?case by simp
next
  case (Cons h hs)
  obtain m1 w1 where h: "h m w = (m1, w1)" by (cases "h m w")
  show ?case
  proof (cases m1)
    case None
    with h Cons.prems show ?thesis by auto
  next
    case (Some a)
    obtain cs1 w2 where r: "passToHandlers hs (Some a) w1 = (cs1, w2)"
      by (cases "passToHandlers hs (Some a) w1")
    with h Some Cons.prems have cs: "cs = (m, Some a) # cs1" by auto
    show ?thesis
    proof (cases i)
      case 0
      with cs Cons.prems(2) have "cs1 \<noteq> []" by auto
      with r have "hs \<noteq> []" by (cases hs) auto
      from calls_first [OF r this] 0 cs show ?thesis by (cases cs1) auto
    next
      case (Suc j)
      with cs Cons.prems(2) have "Suc j < length cs1" by simp
      from Cons.IH [OF r this] cs Suc show ?thesis by simp
    qed
  qed
qed

lemma calls_stop:
  "passToHandlers hs m w = (cs, w') \<Longrightarrow> i < length cs \<Longrightarrow> snd (cs ! i) = None
   \<Longrightarrow> Suc i = length cs"
proof (induction hs arbitrary: m w cs w' i)
  case Nil
  then show ?case by simp
next
  case (Cons h hs)
  obtain m1 w1 where h: "h m w = (m1, w1)" by (cases "h m w")
  show ?case
  proof (cases m1)
    case None
    with h Cons.prems show ?thesis by auto
  next
    case (Some a)
    obtain cs1 w2 where r: "passToHandlers hs (Some a) w1 = (cs1, w2)"
      by (cases "passToHandlers hs (Some a) w1")
    with h Some Cons.prems have cs: "cs = (m, Some a) # cs1" by auto
    show ?thesis
    proof (cases i)
      case 0
      with cs Cons.prems(3) show ?thesis by simp
    next
      case (Suc j)
      with cs Cons.prems have "j < length cs1" "snd (cs1 ! j) = None" by simp_all
      from Cons.IH [OF r this] cs Suc show ?thesis by simp
    qed
  qed
qed

lemma calls_handler:
  "passToHandlers hs m w = (cs, w') \<Longrightarrow> i < length cs
   \<Longrightarrow> \<exists>u u'. (hs ! i) (fst (cs ! i)) u = (snd (cs ! i), u')"
proof (induction hs arbitrary: m w cs w' i)
  case Nil
  then show ?case by simp
next
  case (Cons h hs)
  obtain m1 w1 where h: "h m w = (m1, w1)" by (cases "h m w")
  show ?case
  proof (cases m1)
    case None
    with h Cons.prems show ?thesis by fastforce
  next
    case (Some a)
    obtain cs1 w2 where r: "passToHandlers hs (Some a) w1 = (cs1, w2)"
      by (cases "passToHandlers hs (Some a) w1")
    with h Some Cons.prems have cs: "cs = (m, Some a) # cs1" by auto
    show ?thesis
    proof (cases i)
      case 0
      with cs h Some show ?thesis by fastforce
    next
      case (Suc j)
      with cs Cons.prems have "j < length cs1" by simp
      from Cons.IH [OF r this] cs Suc show ?thesis by simp
    qed
  qed
qed

lemma calls_short:
  "passToHandlers hs m w = (cs, w') \<Longrightarrow> length cs < length hs
   \<Longrightarrow> cs \<noteq> [] \<and> snd (last cs) = None"
proof (induction hs arbitrary: m w cs w')
  case Nil
  then show ?case by simp
next
  case (Cons h hs)
  obtain m1 w1 where h: "h m w = (m1, w1)" by (cases "h m w")
  show ?case
  proof (cases m1)
    case None
    with h Cons.prems show ?thesis by auto
  next
    case (Some a)
    obtain cs1 w2 where r: "passToHandlers hs (Some a) w1 = (cs1, w2)"
      by (cases "passToHandlers hs (Some a) w1")
    with h Some Cons.prems have cs: "cs = (m, Some a) # cs1" by auto
    with Cons.prems(2) have "length cs1 < length hs" by simp
    from Cons.IH [OF r this] cs show ?thesis by simp
  qed
qed

lemma calls_go_on:
  assumes "passToHandlers hs m w = (cs, w')" and "i < length cs" and "snd (cs ! i) \<noteq> None"
    and "Suc i < length hs"
  shows "Suc i < length cs"
proof (rule ccontr)
  assume "\<not> Suc i < length cs"
  with assms(2) have l: "Suc i = length cs" by simp
  with assms(4) have "length cs < length hs" by simp
  from calls_short [OF assms(1) this] have "snd (last cs) = None" by simp
  moreover from l have "last cs = cs ! i"
    by (cases cs rule: rev_cases) (auto simp: nth_append)
  ultimately show False using assms(3) by simp
qed

section \<open>The calls that Shutdown makes\<close>

lemma closeAll_returns:
  assumes "(\<forall>e u. \<exists>u'. fatalln e u = Returns u') \<or> (\<forall>c u. fst (Close c u) = None)"
  shows "\<exists>rs w1. closeAll Close fatalln cs w = (concat (map2 closeEvents cs rs), Returns w1)
           \<and> length rs = length cs"
proof (induction cs arbitrary: w)
  case Nil
  show ?case by simp
next
  case (Cons c cs)
  obtain r w1 where c: "Close c w = (r, w1)" by (cases "Close c w")
  show ?case
  proof (cases r)
    case None
    from Cons.IH [of w1] obtain rs w2 where
      "closeAll Close fatalln cs w1 = (concat (map2 closeEvents cs rs), Returns w2)"
      "length rs = length cs" by blast
    with c None have "closeAll Close fatalln (c # cs) w
        = (concat (map2 closeEvents (c # cs) (None # rs)), Returns w2) \<and> length (None # rs) = length (c # cs)"
      by (simp add: closeEvents_def)
    then show ?thesis by blast
  next
    case (Some err)
    with c have "fst (Close c w) \<noteq> None" by simp
    with assms have "\<exists>u'. fatalln err w1 = Returns u'" by auto
    then obtain w2 where f: "fatalln err w1 = Returns w2" ..
    from Cons.IH [of w2] obtain rs w3 where
      "closeAll Close fatalln cs w2 = (concat (map2 closeEvents cs rs), Returns w3)"
      "length rs = length cs" by blast
    with c Some f have "closeAll Close fatalln (c # cs) w
        = (concat (map2 closeEvents (c # cs) (Some err # rs)), Returns w3)
          \<and> length (Some err # rs) = length (c # cs)"
      by (simp add: closeEvents_def)
    then show ?thesis by blast
  qed
qed

section \<open>The priority prefix that the decoder recognises\<close>

lemma digitsVal_Some_iff: "(\<exists>v. digitsVal s a = Some v) \<longleftrightarrow> list_all isDigit s"
  by (induction s arbitrary: a) (auto simp: isDigit_def)

lemma digitsVal_bound: "digitsVal s a = Some v \<Longrightarrow> v < (a + 1) * 10 ^ length s"
proof (induction s arbitrary: a)
  case Nil
  then show ?case by simp
next
  case (Cons c s)
  from Cons.prems have d: "48 \<le> (of_char c :: nat)" "(of_char c :: nat) \<le> 57"
    and r: "digitsVal s (a * 10 + (of_char c - 48)) = Some v"
    by (auto split: if_splits)
  from Cons.IH [OF r] have "v < (a * 10 + (of_char c - 48) + 1) * 10 ^ length s" .
  also from d have "\<dots> \<le> (a * 10 + 10) * 10 ^ length s"
    by (intro mult_right_mono) auto
  finally show ?case by (simp add: algebra_simps)
qed

lemma digitsVal_zero:
  "digitsVal s a = Some v \<Longrightarrow> v = 0 \<longleftrightarrow> a = 0 \<and> list_all (\<lambda>b. b = CHR ''0'') s"
proof (induction s arbitrary: a)
  case Nil
  then show ?case by auto
next
  case (Cons c s)
  from Cons.prems have d: "48 \<le> (of_char c :: nat)" "(of_char c :: nat) \<le> 57"
    and r: "digitsVal s (a * 10 + (of_char c - 48)) = Some v"
    by (auto split: if_splits)
  have "c = CHR ''0'' \<longleftrightarrow> (of_char c :: nat) = 48"
  proof -
    have "(of_char (CHR ''0'') :: nat) = 48" by simp
    then have "(of_char c :: nat) = 48 \<longleftrightarrow> (of_char c :: nat) = of_char (CHR ''0'')" by simp
    then show ?thesis by (simp only: of_char_eq_iff)
  qed
  with Cons.IH [OF r] d show ?case by auto
qed

lemma digitsVal_short:
  assumes "digitsVal s 0 = Some v" and "length s \<le> 3"
  shows "v < 1000"
proof -
  from digitsVal_bound [OF assms(1)] have "v < 10 ^ length s" by simp
  also from assms(2) have "(10::nat) ^ length s \<le> 10 ^ 3"
    by (intro power_increasing) auto
  finally show ?thesis by simp
qed

lemma Atoi_short:
  assumes "length tok \<le> 3"
  shows "(\<exists>p. Atoi tok = Some p \<and> 0 \<le> p) \<longleftrightarrow> signedDigits tok"
proof (cases tok)
  case Nil
  then show ?thesis by (simp add: Atoi_def signedDigits_def)
next
  case (Cons c d)
  with assms have ld: "length d \<le> 3" by simp
  consider (minus) "c = CHR ''-''" | (plus) "c = CHR ''+''" | (other) "c \<noteq> CHR ''-''" "c \<noteq> CHR ''+''"
    by blast
  then show ?thesis
  proof cases
    case minus
    show ?thesis
    proof (cases "digitsVal d 0")
      case None
      with digitsVal_Some_iff [of d 0] have "\<not> list_all isDigit d" by simp
      with None minus Cons show ?thesis by (simp add: Atoi_def signedDigits_def digits_def)
    next
      case (Some v)
      with digitsVal_Some_iff [of d 0] have ok: "list_all isDigit d" by auto
      from digitsVal_short [OF Some ld] have "v \<le> 2 ^ 63" by simp
      moreover from digitsVal_zero [OF Some] have "v = 0 \<longleftrightarrow> list_all (\<lambda>b. b = CHR ''0'') d" by simp
      ultimately show ?thesis
        using Some minus Cons ok by (auto simp: Atoi_def signedDigits_def digits_def)
    qed
  next
    case plus
    show ?thesis
    proof (cases "digitsVal d 0")
      case None
      with digitsVal_Some_iff [of d 0] have "\<not> list_all isDigit d" by simp
      with None plus Cons show ?thesis by (simp add: Atoi_def signedDigits_def digits_def)
    next
      case (Some v)
      with digitsVal_Some_iff [of d 0] have ok: "list_all isDigit d" by auto
      from digitsVal_short [OF Some ld] have "v < 2 ^ 63" by simp
      then show ?thesis
        using Some plus Cons ok by (auto simp: Atoi_def signedDigits_def digits_def)
    qed
  next
    case other
    show ?thesis
    proof (cases "digitsVal tok 0")
      case None
      with digitsVal_Some_iff [of tok 0] have "\<not> list_all isDigit tok" by simp
      with None other Cons show ?thesis by (simp add: Atoi_def signedDigits_def digits_def)
    next
      case (Some v)
      with digitsVal_Some_iff [of tok 0] have ok: "list_all isDigit tok" by auto
      from digitsVal_short [OF Some assms] have "v < 2 ^ 63" by simp
      then show ?thesis
        using Some other Cons ok by (auto simp: Atoi_def signedDigits_def digits_def)
    qed
  qed
qed

lemma take_takeWhile: "take (length (takeWhile P xs)) xs = takeWhile P xs"
  by (induction xs) auto

lemma drop_takeWhile: "c \<in> set xs \<Longrightarrow>
  xs = takeWhile (\<lambda>b. b \<noteq> c) xs @ c # drop (Suc (length (takeWhile (\<lambda>b. b \<noteq> c) xs))) xs"
  by (induction xs) auto

lemma parsePriority_eq:
  "parsePriority (b # t) =
     (if b = CHR ''<'' \<and> CHR ''>'' \<in> set t
         \<and> 1 \<le> length (takeWhile (\<lambda>c. c \<noteq> CHR ''>'') t)
         \<and> length (takeWhile (\<lambda>c. c \<noteq> CHR ''>'') t) \<le> 3
      then (case Atoi (takeWhile (\<lambda>c. c \<noteq> CHR ''>'') t) of
              None \<Rightarrow> Some (False, 13, b # t)
            | Some p \<Rightarrow>
                if 0 \<le> p
                then Some (True, p, drop (Suc (length (takeWhile (\<lambda>c. c \<noteq> CHR ''>'') t))) t)
                else Some (False, 13, b # t))
      else Some (False, 13, b # t))"
proof -
  let ?k = "length (takeWhile (\<lambda>c. c \<noteq> CHR ''>'') t)"
  show ?thesis
  proof (cases "CHR ''>'' \<in> set t")
    case False
    then show ?thesis
      by (simp add: parsePriority_def at_def sliceFrom_def slice_def IndexByte_eq)
  next
    case True
    then have "?k < length t" by (induction t) auto
    with True show ?thesis
      by (auto simp add: parsePriority_def at_def sliceFrom_def slice_def IndexByte_eq Let_def
          take_takeWhile nat_add_distrib Suc_le_eq split: option.splits)
  qed
qed

lemma parsePriority_recognized:
  assumes "parsePriority pkt = Some (h, p, r)"
  shows "h = recognized pkt"
    and "\<not> h \<Longrightarrow> p = 13 \<and> r = pkt"
    and "h \<Longrightarrow> \<exists>tok. prefixToken pkt = Some tok \<and> pkt = CHR ''<'' # tok @ CHR ''>'' # r
                  \<and> Atoi tok = Some p \<and> 0 \<le> p"
proof -
  from assms obtain b t where pkt: "pkt = b # t"
    by (cases pkt) (auto simp: parsePriority_def at_def)
  let ?tok = "takeWhile (\<lambda>c. c \<noteq> CHR ''>'') t"
  show "h = recognized pkt"
  proof (cases "prefixToken pkt")
    case None
    with assms pkt show ?thesis
      by (auto simp: parsePriority_eq recognized_def prefixToken_def split: if_splits)
  next
    case (Some tok)
    with pkt have tok: "tok = ?tok" and c: "b = CHR ''<''" "CHR ''>'' \<in> set t" "1 \<le> length ?tok" "length ?tok \<le> 3"
      by (auto simp: prefixToken_def split: if_splits)
    from Atoi_short [OF c(4)] assms pkt c Some tok show ?thesis
      by (auto simp: parsePriority_eq recognized_def split: option.splits if_splits)
  qed
  show "p = 13 \<and> r = pkt" if "\<not> h"
    using that assms pkt by (auto simp: parsePriority_eq split: option.splits if_splits)
  show "\<exists>tok. prefixToken pkt = Some tok \<and> pkt = CHR ''<'' # tok @ CHR ''>'' # r
                  \<and> Atoi tok = Some p \<and> 0 \<le> p" if h
  proof -
    from that assms pkt have c: "b = CHR ''<''" "CHR ''>'' \<in> set t" "1 \<le> length ?tok" "length ?tok \<le> 3"
      and a: "Atoi ?tok = Some p" "0 \<le> p" and r: "r = drop (Suc (length ?tok)) t"
      by (auto simp: parsePriority_eq split: option.splits if_splits)
    from drop_takeWhile [OF c(2)] r have "t = ?tok @ CHR ''>'' # r" by simp
    with c a pkt show ?thesis by (auto simp: prefixToken_def)
  qed
qed

lemma decode_Some_iff:
  "decode lib tr now1 now2 src pkt = Some (m, lg) \<longleftrightarrow>
     (\<exists>h p r k m2 pkt2.
        parsePriority pkt = Some (h, p, r)
      \<and> headerOffset lib h r = Some k
      \<and> parseHostname now2 k
           (newMessage\<lparr>Source := src, Time := now1, Severity := p AND 7, Facility := drop_bit 3 p\<rparr>) r
          = Some (m2, pkt2, lg)
      \<and> parseMsg lib tr m2 pkt2 = Some m)"
  by (auto simp: decode_def Option.bind_eq_Some_conv)

lemma parseHostname_keeps:
  "parseHostname ts k m pkt = Some (m', rest, lg) \<Longrightarrow>
     Severity m' = Severity m \<and> Facility m' = Facility m \<and> Time m' = Time m \<and> Source m' = Source m
   \<and> Tag m' = Tag m \<and> Content m' = Content m \<and> Tag1 m' = Tag1 m \<and> Content1 m' = Content1 m"
  by (auto simp: parseHostname_def Let_def Option.bind_eq_Some_conv split: if_splits)

lemma strictSplit_keeps:
  "strictSplit lib tr m msg = Some m' \<Longrightarrow>
     Severity m' = Severity m \<and> Facility m' = Facility m \<and> Time m' = Time m \<and> Source m' = Source m
   \<and> Timestamp m' = Timestamp m \<and> Hostname m' = Hostname m
   \<and> Tag1 m' = Tag1 m \<and> Content1 m' = Content1 m"
  by (auto simp: strictSplit_def Let_def Option.bind_eq_Some_conv split: if_splits)

lemma looseSplit_keeps:
  "looseSplit lib m msg = Some m' \<Longrightarrow>
     Severity m' = Severity m \<and> Facility m' = Facility m \<and> Time m' = Time m \<and> Source m' = Source m
   \<and> Timestamp m' = Timestamp m \<and> Hostname m' = Hostname m
   \<and> Tag m' = Tag m \<and> Content m' = Content m"
  by (auto simp: looseSplit_def Let_def Option.bind_eq_Some_conv split: if_splits)

lemma parseMsg_keeps:
  assumes "parseMsg lib tr m pkt = Some m'"
  shows "Severity m' = Severity m \<and> Facility m' = Facility m \<and> Time m' = Time m \<and> Source m' = Source m
   \<and> Timestamp m' = Timestamp m \<and> Hostname m' = Hostname m"
proof -
  from assms obtain m1 where a: "strictSplit lib tr m (TrimRightFunc pkt isNulCrLf) = Some m1"
    and b: "looseSplit lib m1 (TrimRightFunc pkt isNulCrLf) = Some m'"
    by (auto simp: parseMsg_def Let_def Option.bind_eq_Some_conv)
  from strictSplit_keeps [OF a] looseSplit_keeps [OF b] show ?thesis by simp
qed

lemma decode_priority:
  assumes "decode lib tr now1 now2 src pkt = Some (m, lg)"
  shows "\<exists>h p r. parsePriority pkt = Some (h, p, r)
           \<and> Severity m = p AND 7 \<and> Facility m = drop_bit 3 p"
proof -
  from assms obtain h p r k m2 pkt2 where pp: "parsePriority pkt = Some (h, p, r)"
    and ph: "parseHostname now2 k
           (newMessage\<lparr>Source := src, Time := now1, Severity := p AND 7, Facility := drop_bit 3 p\<rparr>) r
          = Some (m2, pkt2, lg)"
    and pm: "parseMsg lib tr m2 pkt2 = Some m"
    unfolding decode_Some_iff by blast
  from parseHostname_keeps [OF ph] parseMsg_keeps [OF pm] pp show ?thesis by simp
qed

lemma severity_range: "0 \<le> (p::int) AND 7 \<and> p AND 7 \<le> 7"
  by simp

lemma digit_char: "d < 10 \<Longrightarrow> (of_char (''0123456789'' ! d) :: nat) = 48 + d"
proof -
  assume "d < 10"
  then have "d = 0 \<or> d = 1 \<or> d = 2 \<or> d = 3 \<or> d = 4 \<or> d = 5 \<or> d = 6 \<or> d = 7 \<or> d = 8 \<or> d = 9"
    by arith
  then show ?thesis by (elim disjE) simp_all
qed

lemma isDigit_char_of: "d < 10 \<Longrightarrow> isDigit (''0123456789'' ! d)"
  by (simp add: isDigit_def digit_char)

lemma decimal_digits: "list_all isDigit (decimal n) \<and> decimal n \<noteq> []"
proof (induction n rule: decimal.induct)
  case (1 n)
  show ?case
  proof (cases "n < 10")
    case True
    then show ?thesis by (subst (1 2) decimal.simps) (simp add: isDigit_char_of)
  next
    case False
    with "1.IH" show ?thesis by (subst (1 2) decimal.simps) (simp add: isDigit_char_of)
  qed
qed

lemma digitsVal_append:
  "digitsVal (s @ t) a = (case digitsVal s a of None \<Rightarrow> None | Some v \<Rightarrow> digitsVal t v)"
  by (induction s arbitrary: a) auto

lemma digitsVal_decimal: "digitsVal (decimal n) 0 = Some n"
proof (induction n rule: decimal.induct)
  case (1 n)
  show ?case
  proof (cases "n < 10")
    case True
    then show ?thesis by (subst decimal.simps) (simp add: digit_char)
  next
    case False
    with "1.IH" show ?thesis by (subst decimal.simps) (simp add: digitsVal_append digit_char)
  qed
qed

lemma length_decimal: "n < 1000 \<Longrightarrow> length (decimal n) \<le> 3"
proof -
  assume n: "n < 1000"
  have a: "k < 10 \<Longrightarrow> length (decimal k) = 1" for k by (subst decimal.simps) simp
  have b: "k < 100 \<Longrightarrow> length (decimal k) \<le> 2" for k
    by (subst decimal.simps) (simp add: a)
  show ?thesis using n b [of "n div 10"]
    by (subst decimal.simps) simp
qed

lemma isDigit_not_special: "isDigit c \<Longrightarrow> c \<noteq> CHR ''>'' \<and> c \<noteq> CHR ''+'' \<and> c \<noteq> CHR ''-''"
  by (auto simp: isDigit_def)

lemma Atoi_decimal: "n < 1000 \<Longrightarrow> Atoi (decimal n) = Some (int n)"
proof -
  assume n: "n < 1000"
  obtain c d where cd: "decimal n = c # d" using decimal_digits [of n] by (cases "decimal n") auto
  with decimal_digits [of n] have "isDigit c" by simp
  from isDigit_not_special [OF this] have "c \<noteq> CHR ''+''" "c \<noteq> CHR ''-''" by simp_all
  then have "Atoi (decimal n) = (case digitsVal (decimal n) 0 of None \<Rightarrow> None
      | Some v \<Rightarrow> if v < 2 ^ 63 then Some (int v) else None)"
    by (simp add: Atoi_def cd)
  with n show ?thesis by (simp add: digitsVal_decimal)
qed

lemma parsePriority_decimal:
  assumes "n < 1000"
  shows "parsePriority (CHR ''<'' # decimal n @ CHR ''>'' # rest) = Some (True, int n, rest)"
proof -
  have "\<forall>c \<in> set (decimal n). c \<noteq> CHR ''>''"
    using decimal_digits [of n] isDigit_not_special by (auto simp: list_all_iff)
  then have tw: "takeWhile (\<lambda>c. c \<noteq> CHR ''>'') (decimal n @ CHR ''>'' # rest) = decimal n"
    by (simp add: takeWhile_append2)
  have "1 \<le> length (decimal n)" using decimal_digits [of n] by (cases "decimal n") auto
  with length_decimal [OF assms] Atoi_decimal [OF assms] tw show ?thesis
    by (simp add: parsePriority_eq)
qed

lemma decimal_165: "decimal 165 = ''165''"
  by (simp add: decimal.simps)

lemma decimal_1000: "decimal 1000 = ''1000''"
  by (simp add: decimal.simps)

text \<open>The equations that evaluate the decoder on a packet of ASCII bytes.\<close>

lemmas ev = parsePriority_def at_def slice_def sliceFrom_def sliceTo_def Atoi_def decode_def
  headerOffset_def probeA_def probeB_def parseHostname_def parseMsg_def strictSplit_def looseSplit_def
  TrimFunc_def TrimLeftFunc_def TrimRightFunc_ascii IndexFunc_def indexFunc_def runesFrom_ascii ascii_def
  isNulCrLf_def isNotAlnum_def exampleLib_def newMessage_def Let_def

section \<open>Trimming NUL, CR and LF from the end of any string of bytes\<close>

text \<open>
  \<^verbatim>\<open>TrimRightFunc\<close> reads its argument rune by rune from the end. The lemmas of this section
  show that with a predicate that holds for ASCII runes only, such as \<open>isNulCrLf\<close>, it removes
  the bytes at the end for which the predicate holds and nothing else, also when the
  string is not valid UTF-8.
\<close>

lemma or_ge_left: "(a::nat) \<le> a OR b"
  by (metis or_greater_eq of_nat_le_iff of_nat_or_eq of_nat_0_le_iff)

lemma or_ge_right: "(b::nat) \<le> a OR b"
  by (metis or.commute or_ge_left)

lemma and_low_bits:
  "(x::nat) AND 0x1F = x mod 32" "(x::nat) AND 0x0F = x mod 16" "(x::nat) AND 0x07 = x mod 8"
  "(x::nat) AND 0x3F = x mod 64"
proof -
  have m: "x AND mask n = x mod 2 ^ n" for n
    by (simp add: take_bit_eq_mod flip: take_bit_eq_mask)
  from m [of 5] show "x AND 0x1F = x mod 32" by (simp add: mask_eq_exp_minus_1)
  from m [of 4] show "x AND 0x0F = x mod 16" by (simp add: mask_eq_exp_minus_1)
  from m [of 3] show "x AND 0x07 = x mod 8" by (simp add: mask_eq_exp_minus_1)
  from m [of 6] show "x AND 0x3F = x mod 64" by (simp add: mask_eq_exp_minus_1)
qed

text \<open>The encodings of two, three and four bytes, one lemma for each range of the first byte.\<close>

lemma DecodeRune_2:
  assumes "194 \<le> (of_char b :: nat)" "(of_char b :: nat) < 224"
  shows "DecodeRune (b # t) =
    (if 1 \<le> length t \<and> contByte 128 191 (t ! 0)
     then (push_bit 6 ((of_char b :: nat) AND 0x1F) OR ((of_char (t ! 0) :: nat) AND 0x3F), 2)
     else (RuneError, 1))"
  using assms by (simp add: DecodeRune_def Let_def contByte_def not_less Suc_le_eq del: push_bit_or)

lemma DecodeRune_3:
  assumes "224 \<le> (of_char b :: nat)" "(of_char b :: nat) < 240"
  shows "DecodeRune (b # t) =
    (if 2 \<le> length t
        \<and> contByte (if (of_char b :: nat) = 224 then 160 else 128)
             (if (of_char b :: nat) = 237 then 159 else 191) (t ! 0)
        \<and> contByte 128 191 (t ! 1)
     then (push_bit 12 ((of_char b :: nat) AND 0x0F) OR push_bit 6 ((of_char (t ! 0) :: nat) AND 0x3F)
           OR ((of_char (t ! 1) :: nat) AND 0x3F), 3)
     else (RuneError, 1))"
  using assms by (auto simp add: DecodeRune_def Let_def contByte_def simp del: push_bit_or)

lemma DecodeRune_4:
  assumes "240 \<le> (of_char b :: nat)" "(of_char b :: nat) \<le> 244"
  shows "DecodeRune (b # t) =
    (if 3 \<le> length t
        \<and> contByte (if (of_char b :: nat) = 240 then 144 else 128)
             (if (of_char b :: nat) = 244 then 143 else 191) (t ! 0)
        \<and> contByte 128 191 (t ! 1) \<and> contByte 128 191 (t ! 2)
     then (push_bit 18 ((of_char b :: nat) AND 0x07) OR push_bit 12 ((of_char (t ! 0) :: nat) AND 0x3F)
           OR push_bit 6 ((of_char (t ! 1) :: nat) AND 0x3F) OR ((of_char (t ! 2) :: nat) AND 0x3F), 4)
     else (RuneError, 1))"
  using assms by (auto simp add: DecodeRune_def Let_def contByte_def simp del: push_bit_or)

lemma DecodeRune_invalid:
  assumes "128 \<le> (of_char b :: nat)" "(of_char b :: nat) < 194 \<or> 244 < (of_char b :: nat)"
  shows "DecodeRune (b # t) = (RuneError, 1)"
  using assms by (auto simp add: DecodeRune_def Let_def)

lemma mod_window: "k * n \<le> x \<Longrightarrow> x < k * n + n \<Longrightarrow> x mod n = x - k * (n::nat)"
proof -
  assume a: "k * n \<le> x" and b: "x < k * n + n"
  from a have "x = (x - k * n) + k * n" by simp
  then have "x mod n = ((x - k * n) + k * n) mod n" by simp
  also have "\<dots> = (x - k * n) mod n" by (rule mod_mult_self1)
  also from a b have "\<dots> = x - k * n" by simp
  finally show ?thesis .
qed

lemma mod32_lead: "194 \<le> (x::nat) \<Longrightarrow> x < 224 \<Longrightarrow> 2 \<le> x mod 32"
  using mod_window [of 6 32 x] by simp

lemma mod16_lead: "224 < (x::nat) \<Longrightarrow> x < 240 \<Longrightarrow> 1 \<le> x mod 16"
  using mod_window [of 14 16 x] by simp

lemma mod8_lead: "240 < (x::nat) \<Longrightarrow> x \<le> 244 \<Longrightarrow> 1 \<le> x mod 8"
  using mod_window [of 30 8 x] by simp

lemma mod64_cont: "128 \<le> (y::nat) \<Longrightarrow> y \<le> 191 \<Longrightarrow> y mod 64 = y - 128"
  using mod_window [of 2 64 y] by simp

lemma or3_ge: "128 \<le> a \<or> 128 \<le> b \<Longrightarrow> (128::nat) \<le> a OR b OR z"
proof -
  assume h: "128 \<le> a \<or> 128 \<le> b"
  have "a \<le> a OR b OR z" by (rule or_ge_left)
  moreover have "b \<le> b OR z" by (rule or_ge_left)
  moreover have "b OR z \<le> a OR b OR z" by (rule or_ge_right)
  ultimately show ?thesis using h by linarith
qed

lemma high_byte_cases:
  assumes "128 \<le> (of_char b :: nat)"
  obtains (invalid) "(of_char b :: nat) < 194 \<or> 244 < (of_char b :: nat)"
    | (two) "194 \<le> (of_char b :: nat)" "(of_char b :: nat) < 224"
    | (three) "224 \<le> (of_char b :: nat)" "(of_char b :: nat) < 240"
    | (four) "240 \<le> (of_char b :: nat)" "(of_char b :: nat) \<le> 244"
  by linarith

lemma DecodeRune_high:
  assumes "128 \<le> (of_char b :: nat)"
  shows "128 \<le> fst (DecodeRune (b # t))"
  using assms
proof (cases rule: high_byte_cases)
  case invalid
  with assms show ?thesis by (simp add: DecodeRune_invalid RuneError_def)
next
  case two
  let ?x = "of_char b :: nat"
  from mod32_lead [OF two] have "128 \<le> push_bit 6 (?x mod 32)" by (simp add: push_bit_eq_mult)
  also have "\<dots> \<le> push_bit 6 (?x mod 32) OR y" for y by (rule or_ge_left)
  finally show ?thesis
    using two by (simp add: DecodeRune_2 RuneError_def and_low_bits del: push_bit_or)
next
  case three
  let ?x = "of_char b :: nat" and ?y = "of_char (t ! 0) :: nat"
  have "128 \<le> push_bit 12 (?x mod 16) OR push_bit 6 (?y mod 64) OR z"
    if c: "contByte (if ?x = 224 then 160 else 128) (if ?x = 237 then 159 else 191) (t ! 0)" for z
  proof (rule or3_ge, cases "?x = 224")
    case True
    with c have "160 \<le> ?y" "?y \<le> 191" by (simp_all add: contByte_def)
    with mod64_cont [of ?y] have "32 \<le> ?y mod 64" by simp
    then have "128 \<le> push_bit 6 (?y mod 64)" by (simp add: push_bit_eq_mult)
    then show "128 \<le> push_bit 12 (?x mod 16) \<or> 128 \<le> push_bit 6 (?y mod 64)" ..
  next
    case False
    with three have "224 < ?x" by simp
    from mod16_lead [OF this three(2)] have "128 \<le> push_bit 12 (?x mod 16)"
      by (simp add: push_bit_eq_mult)
    then show "128 \<le> push_bit 12 (?x mod 16) \<or> 128 \<le> push_bit 6 (?y mod 64)" ..
  qed
  then show ?thesis
    using three by (simp add: DecodeRune_3 RuneError_def and_low_bits del: push_bit_or)
next
  case four
  let ?x = "of_char b :: nat" and ?y = "of_char (t ! 0) :: nat"
  have "128 \<le> push_bit 18 (?x mod 8) OR push_bit 12 (?y mod 64) OR z"
    if c: "contByte (if ?x = 240 then 144 else 128) (if ?x = 244 then 143 else 191) (t ! 0)" for z
  proof (rule or3_ge, cases "?x = 240")
    case True
    with c have "144 \<le> ?y" "?y \<le> 191" by (simp_all add: contByte_def)
    with mod64_cont [of ?y] have "16 \<le> ?y mod 64" by simp
    then have "128 \<le> push_bit 12 (?y mod 64)" by (simp add: push_bit_eq_mult)
    then show "128 \<le> push_bit 18 (?x mod 8) \<or> 128 \<le> push_bit 12 (?y mod 64)" ..
  next
    case False
    with four have "240 < ?x" by simp
    from mod8_lead [OF this four(2)] have "128 \<le> push_bit 18 (?x mod 8)"
      by (simp add: push_bit_eq_mult)
    then show "128 \<le> push_bit 18 (?x mod 8) \<or> 128 \<le> push_bit 12 (?y mod 64)" ..
  qed
  then show ?thesis
    using four by (simp add: DecodeRune_4 RuneError_def and_low_bits del: push_bit_or)
qed

text \<open>A byte of \<open>0x80\<close> or more before an ASCII byte, or before the end, is a rune of width 1.\<close>

lemma DecodeRune_alone:
  assumes "128 \<le> (of_char b :: nat)" and "z = [] \<or> (of_char (hd z) :: nat) < 128"
  shows "snd (DecodeRune (b # z)) = 1"
proof -
  have nc: "\<not> contByte lo hi (z ! 0)" if "128 \<le> lo" "1 \<le> length z" for lo hi
    using assms(2) that by (cases z) (auto simp: contByte_def)
  show ?thesis
    using assms(1)
  proof (cases rule: high_byte_cases)
    case invalid
    with assms show ?thesis by (simp add: DecodeRune_invalid)
  next
    case two
    with nc [of 128 191] show ?thesis by (auto simp add: DecodeRune_2 simp del: push_bit_or)
  next
    case three
    with nc [of 128] nc [of 160] show ?thesis
      by (auto simp add: DecodeRune_3 simp del: push_bit_or)
  next
    case four
    with nc [of 128] nc [of 144] show ?thesis
      by (auto simp add: DecodeRune_4 simp del: push_bit_or)
  qed
qed

text \<open>An encoding of two bytes or more is read the same whatever follows it.\<close>

lemma DecodeRune_append:
  assumes "2 \<le> snd (DecodeRune s)"
  shows "DecodeRune (s @ z) = DecodeRune s"
proof -
  from assms obtain b t where s: "s = b # t" by (cases s) (auto simp: DecodeRune_def)
  have hi: "128 \<le> (of_char b :: nat)"
  proof (rule ccontr)
    assume "\<not> 128 \<le> (of_char b :: nat)"
    then have "DecodeRune s = (of_char b, 1)" by (simp add: s DecodeRune_ascii)
    with assms show False by simp
  qed
  show ?thesis
    using hi
  proof (cases rule: high_byte_cases)
    case invalid
    with assms hi s show ?thesis by (simp add: DecodeRune_invalid)
  next
    case two
    with assms s show ?thesis
      by (auto simp add: DecodeRune_2 nth_append simp del: push_bit_or split: if_splits)
  next
    case three
    with assms s show ?thesis
      by (auto simp add: DecodeRune_3 nth_append simp del: push_bit_or split: if_splits)
  next
    case four
    with assms s show ?thesis
      by (auto simp add: DecodeRune_4 nth_append simp del: push_bit_or split: if_splits)
  qed
qed

lemma DecodeLastRune_high:
  assumes "p \<noteq> []" and "128 \<le> (of_char (last p) :: nat)"
  shows "DecodeLastRune p = (RuneError, 1)
       \<or> (\<exists>k. k < length p \<and> DecodeLastRune p = DecodeRune (drop k p)
                \<and> k + snd (DecodeRune (drop k p)) = length p)"
proof -
  from assms(1) obtain q b where pq: "p = q @ [b]" by (cases p rule: rev_cases) auto
  then have l: "p ! nat (int (length p) - 1) = last p" by simp
  let ?k = "nat (lastRuneStart p)"
  from lastRuneStart_bounds [OF assms(1)] have k: "?k < length p" "int ?k = lastRuneStart p"
    by simp_all
  show ?thesis
  proof (cases "lastRuneStart p + int (snd (DecodeRune (drop ?k p))) = int (length p)")
    case True
    with assms l have "DecodeLastRune p = DecodeRune (drop ?k p)"
      by (auto simp add: DecodeLastRune_def Let_def split: prod.splits)
    moreover from True k have "?k + snd (DecodeRune (drop ?k p)) = length p" by linarith
    ultimately show ?thesis using k(1) by blast
  next
    case False
    with assms l have "DecodeLastRune p = (RuneError, 1)"
      by (auto simp add: DecodeLastRune_def Let_def split: prod.splits)
    then show ?thesis ..
  qed
qed

lemma last_rune_high:
  fixes q :: bytes
  assumes "128 \<le> (of_char b :: nat)"
    and "z = [] \<or> (of_char (hd z) :: nat) < 128"
  defines "p \<equiv> q @ [b]"
  defines "i \<equiv> length p - snd (DecodeLastRune p)"
  shows "128 \<le> fst (DecodeLastRune p)
       \<and> (if 128 \<le> (of_char ((p @ z) ! i) :: nat)
          then i + snd (DecodeRune (drop i (p @ z))) else i + 1) = length p"
proof -
  have ne: "p \<noteq> []" and lp: "last p = b" and len: "length p = Suc (length q)"
    by (simp_all add: p_def)
  have alone: "snd (DecodeRune (b # z)) = 1"
    using assms(1,2) by (rule DecodeRune_alone)
  have tail: "(p @ z) ! length q = b" "drop (length q) (p @ z) = b # z"
    by (simp_all add: p_def)
  from DecodeLastRune_high [OF ne] assms(1) lp
  consider (err) "DecodeLastRune p = (RuneError, 1)"
    | (ok) k where "k < length p" "DecodeLastRune p = DecodeRune (drop k p)"
        "k + snd (DecodeRune (drop k p)) = length p"
    by auto
  then show ?thesis
  proof cases
    case err
    with assms(1) alone tail len show ?thesis by (simp add: i_def RuneError_def)
  next
    case ok
    let ?t = "drop k p"
    from ok(1) obtain c t' where t: "?t = c # t'" by (cases ?t) auto
    with ok(1) have c: "(p @ z) ! k = c"
      by (metis nth_via_drop nth_append)
    from ok have ik: "i = k" by (simp add: i_def)
    show ?thesis
    proof (cases "2 \<le> snd (DecodeRune ?t)")
      case True
      have hi: "128 \<le> (of_char c :: nat)"
      proof (rule ccontr)
        assume "\<not> 128 \<le> (of_char c :: nat)"
        then have "DecodeRune ?t = (of_char c, 1)" by (simp add: t DecodeRune_ascii)
        with True show False by simp
      qed
      from DecodeRune_high [OF hi, of t'] t ok(2) have "128 \<le> fst (DecodeLastRune p)" by simp
      moreover from DecodeRune_append [OF True, of z] ok(1)
      have "snd (DecodeRune (drop k (p @ z))) = snd (DecodeRune ?t)" by simp
      ultimately show ?thesis using ok(3) hi ik c by simp
    next
      case False
      with DecodeRune_width [of ?t] t have w: "snd (DecodeRune ?t) = 1" by simp
      with ok(3) len have k: "k = length q" by simp
      then have t1: "?t = [b]" by (simp add: p_def)
      from DecodeRune_high [OF assms(1), of "[]"] t1 ok(2) have "128 \<le> fst (DecodeLastRune p)"
        by simp
      with alone tail k ik assms(1) len show ?thesis by simp
    qed
  qed
qed

lemma lastIndexFunc_strip:
  assumes "\<And>r. f r \<Longrightarrow> r < 128" and "list_all (\<lambda>b. f (of_char b)) z"
  shows "lastIndexFunc (p @ z) f False = lastIndexFunc p f False"
  using assms(2)
proof (induction z rule: rev_induct)
  case Nil
  show ?case by simp
next
  case (snoc b z)
  then have fb: "f (of_char b)" and z: "list_all (\<lambda>b. f (of_char b)) z" by simp_all
  from assms(1) [OF fb] have "(of_char b :: nat) < 128" .
  from lastIndexFunc_snoc_ascii [OF this, of "p @ z" f False] fb snoc.IH [OF z]
  show ?case by simp
qed

lemma TrimRightFunc_keep:
  assumes f: "\<And>r. f r \<Longrightarrow> r < 128"
    and z: "list_all (\<lambda>b. f (of_char b)) z"
    and p: "p = [] \<or> \<not> f (of_char (last p))"
  shows "TrimRightFunc (p @ z) f = p"
proof (cases p rule: rev_cases)
  case Nil
  with lastIndexFunc_strip [OF f z, of "[]"] show ?thesis
    by (simp add: TrimRightFunc_def)
next
  case (snoc q b)
  with p have nb: "\<not> f (of_char b)" by simp
  have zh: "z = [] \<or> (of_char (hd z) :: nat) < 128"
    using z f by (cases z) auto
  show ?thesis
  proof (cases "(of_char b :: nat) < 128")
    case True
    from lastIndexFunc_snoc_ascii [OF True, of q f False] nb
    have "lastIndexFunc p f False = int (length q)" by (simp add: snoc)
    with lastIndexFunc_strip [OF f z, of p] True show ?thesis
      by (simp add: TrimRightFunc_def snoc nth_append nat_add_distrib)
  next
    case False
    then have hb: "128 \<le> (of_char b :: nat)" by simp
    let ?w = "snd (DecodeLastRune p)" and ?i = "length p - snd (DecodeLastRune p)"
    note lr = last_rune_high [OF hb zh, of q, folded snoc]
    from lr have r: "128 \<le> fst (DecodeLastRune p)" by (rule conjunct1)
    from lr have w: "(if 128 \<le> (of_char ((p @ z) ! ?i) :: nat)
          then ?i + snd (DecodeRune (drop ?i (p @ z))) else ?i + 1) = length p"
      by (rule conjunct2)
    from r f have "\<not> f (fst (DecodeLastRune p))" by (meson not_less)
    then have "lastIndexFunc p f False = int ?i"
      by (subst lastIndexFunc.simps) (simp add: snoc Let_def)
    with lastIndexFunc_strip [OF f z, of p] have i: "lastIndexFunc (p @ z) f False = int ?i"
      by simp
    have "(if 0 \<le> int ?i \<and> 128 \<le> (of_char ((p @ z) ! nat (int ?i)) :: nat)
           then int ?i + int (snd (DecodeRune (drop (nat (int ?i)) (p @ z))))
           else int ?i + 1) = int (length p)"
      using w by (simp split: if_splits)
    then show ?thesis
      unfolding TrimRightFunc_def Let_def i by simp
  qed
qed

lemma TrimRightFunc_bytes:
  assumes "\<And>r. f r \<Longrightarrow> r < 128"
  shows "TrimRightFunc s f = rev (dropWhile (\<lambda>b. f (of_char b)) (rev s))"
proof -
  let ?P = "\<lambda>b. f (of_char b)"
  let ?p = "rev (dropWhile ?P (rev s))" and ?z = "rev (takeWhile ?P (rev s))"
  have s: "s = ?p @ ?z"
    by (metis rev_append rev_rev_ident takeWhile_dropWhile_id)
  have z: "list_all ?P ?z"
    by (simp add: list_all_iff) (meson set_takeWhileD)
  have p: "?p = [] \<or> \<not> ?P (last ?p)"
  proof (cases "dropWhile ?P (rev s)")
    case Nil
    then show ?thesis by simp
  next
    case (Cons c cs)
    then have "\<not> ?P c" by (metis hd_dropWhile list.sel(1) list.distinct(1))
    with Cons show ?thesis by simp
  qed
  from TrimRightFunc_keep [OF assms z p] s show ?thesis by simp
qed

lemma isNulCrLf_byte: "isNulCrLf (of_char b) \<longleftrightarrow> b = CHR 0x00 \<or> b = CHR 0x0D \<or> b = CHR 0x0A"
proof -
  have "(of_char b :: nat) = of_char c \<longleftrightarrow> b = c" for c by (rule of_char_eq_iff)
  from this [of "CHR 0x00"] this [of "CHR 0x0D"] this [of "CHR 0x0A"]
  show ?thesis by (simp add: isNulCrLf_def)
qed

lemma TrimRightFunc_isNulCrLf:
  "TrimRightFunc s isNulCrLf
     = rev (dropWhile (\<lambda>b. b = CHR 0x00 \<or> b = CHR 0x0D \<or> b = CHR 0x0A) (rev s))"
proof -
  have "isNulCrLf r \<Longrightarrow> r < 128" for r by (auto simp: isNulCrLf_def)
  from TrimRightFunc_bytes [of isNulCrLf, OF this] show ?thesis
    by (simp add: isNulCrLf_byte)
qed

section \<open>The strict split by the first rune that is not allowed in a tag\<close>

lemma firstIndex_find:
  "firstIndex f True rs = (case find (\<lambda>(i, r). f r) rs of None \<Rightarrow> - 1 | Some (i, r) \<Rightarrow> int i)"
  by (induction f True rs rule: firstIndex.induct) auto

lemma find_runesFrom_offset:
  assumes "find P (runesFrom 0 msg) = Some (i, r)"
  shows "i < length msg"
proof -
  from assms have "(i, r) \<in> set (runesFrom 0 msg)"
    by (metis find_Some_iff nth_mem)
  from runesFrom_offsets [OF this] show ?thesis by simp
qed

lemma strictSplit_find:
  "strictSplit lib tr m msg =
     (case find (\<lambda>(i, r). isNotAlnum lib tr r) (runesFrom 0 msg) of
        None \<Rightarrow> Some (m\<lparr>Content := msg\<rparr>)
      | Some (i, r) \<Rightarrow> Some (m\<lparr>Tag := take i msg, Content := drop i msg\<rparr>))"
proof (cases "find (\<lambda>(i, r). isNotAlnum lib tr r) (runesFrom 0 msg)")
  case None
  then show ?thesis
    by (simp add: strictSplit_def IndexFunc_def indexFunc_def firstIndex_find)
next
  case (Some a)
  obtain i r where a: "a = (i, r)" by (cases a)
  from find_runesFrom_offset [OF Some [unfolded a]] have "i < length msg" .
  with Some a show ?thesis
    by (simp add: strictSplit_def IndexFunc_def indexFunc_def firstIndex_find sliceTo_def
        sliceFrom_def slice_def)
qed

section \<open>The two layouts of the header\<close>

lemma headerOffset_layouts: "headerOffset lib True pkt = Some (headerOffset_spec lib pkt)"
  by (auto simp: headerOffset_def headerOffset_spec_def layoutA_def layoutB_def probeA_def
      probeB_def at_def sliceTo_def slice_def split: option.splits)

text \<open>
  The time that the decoder stores is never read from the packet: \<^verbatim>\<open>m.Timestamp\<close> is the
  zero time or the \<^verbatim>\<open>time.Now()\<close> of line 141.
\<close>

lemma decode_timestamp_is_now:
  assumes "decode lib tr now1 now2 src pkt = Some (m, lg)"
  shows "Timestamp m = 0 \<or> Timestamp m = now2"
proof -
  from assms obtain p k r m2 pkt2 where
    ph: "parseHostname now2 k
           (newMessage\<lparr>Source := src, Time := now1, Severity := p AND 7, Facility := drop_bit 3 p\<rparr>) r
          = Some (m2, pkt2, lg)"
    and pm: "parseMsg lib tr m2 pkt2 = Some m"
    unfolding decode_Some_iff by blast
  from ph have "Timestamp m2 = 0 \<or> Timestamp m2 = now2"
    by (auto simp: parseHostname_def newMessage_def Let_def Option.bind_eq_Some_conv
        split: if_splits)
  with parseMsg_keeps [OF pm] show ?thesis by simp
qed

section \<open>The claims\<close>

text \<open>
  Claim C1, as amended: for every \<open>p < 1000\<close> and every rest, decoding \<^verbatim>\<open><p>rest\<close>, with \<open>p\<close>
  written in decimal, returns a message with severity \<open>p & 7\<close> and facility \<open>p >> 3\<close>.
\<close>

theorem C1_priority_below_1000:
  assumes "p < 1000"
  shows "\<exists>m lg. decode lib tr now1 now2 src (CHR ''<'' # decimal p @ CHR ''>'' # rest) = Some (m, lg)
           \<and> Severity m = int p AND 7 \<and> Facility m = drop_bit 3 (int p)"
proof -
  let ?pkt = "CHR ''<'' # decimal p @ CHR ''>'' # rest"
  have "?pkt \<noteq> []" by simp
  from decode_total [OF this] obtain m lg where d: "decode lib tr now1 now2 src ?pkt = Some (m, lg)"
    by blast
  from decode_priority [OF d] parsePriority_decimal [OF assms, of rest]
  have "Severity m = int p AND 7 \<and> Facility m = drop_bit 3 (int p)" by simp
  with d show ?thesis by blast
qed

theorem C1_priority_witness:
  "decimal 165 = ''165''
   \<and> (\<exists>m lg. decode exampleLib Map.empty 0 0 (None :: nat option) ''<165>rest'' = Some (m, lg)
         \<and> Severity m = 5 \<and> Facility m = 20)"
proof -
  have "(165::nat) < 1000" by simp
  from C1_priority_below_1000 [OF this, of exampleLib Map.empty 0 0 None "''rest''"]
  show ?thesis by (simp add: decimal_165 drop_bit_eq_div)
qed

text \<open>
  A priority of four digits is not read: \<^verbatim>\<open>n < 5\<close> (line 128) fails for \<^verbatim>\<open><1000>rest\<close>, and the
  message has the severity and the facility of the default priority 13, not of 1000.
\<close>

theorem C1_counterexample:
  "decimal 1000 = ''1000''
   \<and> map_option (\<lambda>(m, lg). (Severity m, Facility m))
        (decode exampleLib Map.empty 0 0 (None :: nat option) ''<1000>rest'') = Some (5, 1)
   \<and> ((1000::int) AND 7, drop_bit 3 (1000::int)) = (0, 125)"
  by (simp add: decimal_1000 drop_bit_eq_div ev)

text \<open>
  Claim C2: a well-formed packet of layout B decodes to its host name, its strict tag and
  content, its loose tag and content, and the time that its header carries. The decoder
  returns all of these but the time: in the library of any Go that parses the date of
  the packet to a time \<open>t\<close>, the message has the time stamp \<open>now2\<close>, the \<^verbatim>\<open>time.Now()\<close> of line
  141, since \<^verbatim>\<open>ts, err := time.Parse(...)\<close> of line 155 declares a new \<^verbatim>\<open>ts\<close> inside the branch.
\<close>

theorem C2_legacy_example_timestamp:
  assumes "asciiAgrees lib"
    and "ParseStamp lib ''Jan  2 15:04:05'' = Some t" and "t \<noteq> 0"
    and "tr 58 \<noteq> Some True"
  shows "decode lib tr now1 now2 src
           (''<13>Jan  2 15:04:05 myhost prog123: hello world'' @ [CHR 0x0A])
         = Some (\<lparr>Time = now1, Source = src, Facility = 1, Severity = 5, Timestamp = now2,
                  Hostname = ''myhost'', Tag = ''prog123'', Content = '': hello world'',
                  Tag1 = ''prog123:'', Content1 = ''hello world''\<rparr>, None)"
proof -
  from assms(1) have L: "\<And>r. r < 128 \<Longrightarrow> IsLetter lib r = ((65 \<le> r \<and> r \<le> 90) \<or> (97 \<le> r \<and> r \<le> 122))"
    and N: "\<And>r. r < 128 \<Longrightarrow> IsNumber lib r = (48 \<le> r \<and> r \<le> 57)"
    and S: "\<And>r. r < 128 \<Longrightarrow> IsSpace lib r = ((9 \<le> r \<and> r \<le> 13) \<or> r = 32)"
    by (simp_all add: asciiAgrees_def)
  from assms(4) have c: "(case tr 58 of None \<Rightarrow> False | Some b \<Rightarrow> b) = False"
    by (cases "tr 58") auto
  have pp: "parsePriority (''<13>Jan  2 15:04:05 myhost prog123: hello world'' @ [CHR 0x0A])
      = Some (True, 13, ''Jan  2 15:04:05 myhost prog123: hello world'' @ [CHR 0x0A])"
    by (simp add: parsePriority_def at_def slice_def sliceFrom_def Atoi_def)
  have ho: "headerOffset lib True (''Jan  2 15:04:05 myhost prog123: hello world'' @ [CHR 0x0A]) = Some 16"
    using assms(2,3)
    by (simp add: headerOffset_def probeA_def probeB_def at_def sliceTo_def slice_def)
  have ph: "parseHostname now2 16 m (''Jan  2 15:04:05 myhost prog123: hello world'' @ [CHR 0x0A])
      = Some (m\<lparr>Timestamp := now2, Hostname := ''myhost''\<rparr>, ''prog123: hello world'' @ [CHR 0x0A], None)"
    for m :: "'a Message"
    by (simp add: parseHostname_def sliceFrom_def slice_def)
  have tm: "TrimRightFunc (''prog123: hello world'' @ [CHR 0x0A]) isNulCrLf = ''prog123: hello world''"
    by (simp add: TrimRightFunc_isNulCrLf)
  have ss: "strictSplit lib tr m ''prog123: hello world''
      = Some (m\<lparr>Tag := ''prog123'', Content := '': hello world''\<rparr>)" for m :: "'a Message"
    by (simp add: strictSplit_def IndexFunc_def indexFunc_def runesFrom_ascii isNotAlnum_def
        L N c sliceTo_def sliceFrom_def slice_def)
  have ls: "looseSplit lib m ''prog123: hello world''
      = Some (m\<lparr>Tag1 := ''prog123:'', Content1 := ''hello world''\<rparr>)" for m :: "'a Message"
    by (simp add: looseSplit_def TrimFunc_def TrimLeftFunc_def TrimRightFunc_ascii ascii_def
        IndexFunc_def indexFunc_def runesFrom_ascii S sliceTo_def sliceFrom_def slice_def)
  show ?thesis
    by (simp add: decode_def pp [simplified] ho [simplified] ph [simplified] parseMsg_def
        tm [simplified] ss ls newMessage_def drop_bit_eq_div)
qed

text \<open>The date of the packet parses to January 2 of the year 0; the message carries the time 7.\<close>

theorem C2_legacy_example_witness:
  "ParseStamp exampleLib ''Jan  2 15:04:05'' = Some (- 31481755000000000)
   \<and> decode exampleLib Map.empty 5 7 (None :: nat option)
           (''<13>Jan  2 15:04:05 myhost prog123: hello world'' @ [CHR 0x0A])
         = Some (\<lparr>Time = 5, Source = None, Facility = 1, Severity = 5, Timestamp = 7,
                  Hostname = ''myhost'', Tag = ''prog123'', Content = '': hello world'',
                  Tag1 = ''prog123:'', Content1 = ''hello world''\<rparr>, None)"
proof -
  have a: "asciiAgrees exampleLib"
    by (auto simp add: asciiAgrees_def exampleLib_def)
  have p: "ParseStamp exampleLib ''Jan  2 15:04:05'' = Some (- 31481755000000000)"
    by (simp add: exampleLib_def)
  have n: "(- 31481755000000000 :: int) \<noteq> 0" by simp
  have t: "(Map.empty :: rune \<rightharpoonup> bool) 58 \<noteq> Some True" by simp
  from C2_legacy_example_timestamp [OF a p n t, of 5 7 None] p show ?thesis by simp
qed

text \<open>
  Claim C3: the decoder is total, it never panics, also on the empty packet and on
  truncated headers. On the empty packet the decoder does panic: \<^verbatim>\<open>pkt[0]\<close> (line 126) is
  read before any test of the length, where the later reads \<^verbatim>\<open>pkt[25]\<close> and \<^verbatim>\<open>pkt[15]\<close> stand
  behind \<^verbatim>\<open>len(pkt) >= 26\<close> and \<^verbatim>\<open>len(pkt) >= 16\<close>. (On every other packet it returns a
  message: lemma \<open>decode_total\<close>.)
\<close>

theorem C3_decode_empty_panics: "decode lib tr now1 now2 src [] = None"
  by (simp add: decode_def parsePriority_def at_def)

text \<open>
  Claim C4: for a packet with a priority, the header is looked for as layout A first
  and, whenever layout A fails, as layout B; and when both fail the decoder sets no
  host name and no time stamp, reports the packet without its priority as not parsed,
  and splits that whole packet into tag and content. (The code does not test the
  position of layout B after a date of layout A has failed to parse; that test would
  fail, since layout A has seen no space at offset 15, where layout B needs one.)
\<close>

theorem C4_header_detection:
  assumes "parsePriority pkt = Some (True, p, r)"
  shows "headerOffset lib True r = Some (headerOffset_spec lib r)
       \<and> (\<exists>m lg. decode lib tr now1 now2 src pkt = Some (m, lg)
             \<and> (\<not> layoutA lib r \<and> \<not> layoutB lib r \<longrightarrow>
                  Hostname m = [] \<and> Timestamp m = 0 \<and> lg = Some r
                \<and> parseMsg lib tr
                     (newMessage\<lparr>Source := src, Time := now1, Severity := p AND 7,
                        Facility := drop_bit 3 p\<rparr>) r = Some m))"
proof -
  let ?m1 = "newMessage\<lparr>Source := src, Time := now1, Severity := p AND 7, Facility := drop_bit 3 p\<rparr>"
  from assms have "pkt \<noteq> []" by (auto simp: parsePriority_def at_def)
  from decode_total [OF this] obtain m lg where d: "decode lib tr now1 now2 src pkt = Some (m, lg)"
    by blast
  have "Hostname m = [] \<and> Timestamp m = 0 \<and> lg = Some r \<and> parseMsg lib tr ?m1 r = Some m"
    if "\<not> layoutA lib r" "\<not> layoutB lib r"
  proof -
    from that have k: "headerOffset lib True r = Some 0"
      by (simp add: headerOffset_layouts headerOffset_spec_def)
    from d assms k obtain m2 pkt2 where ph: "parseHostname now2 0 ?m1 r = Some (m2, pkt2, lg)"
      and pm: "parseMsg lib tr m2 pkt2 = Some m"
      unfolding decode_Some_iff by auto
    from ph have e: "m2 = ?m1" "pkt2 = r" "lg = Some r" by (auto simp add: parseHostname_def)
    from parseMsg_keeps [OF pm] e have "Hostname m = []" "Timestamp m = 0"
      by (simp_all add: newMessage_def)
    with pm e show ?thesis by simp
  qed
  with d headerOffset_layouts show ?thesis by blast
qed

text \<open>A packet with a space at offset 15 whose first 15 bytes are no date.\<close>

theorem C4_header_witness:
  "parsePriority ''<13>Xyz  2 15:04:05 myhost prog: hi'' = Some (True, 13, ''Xyz  2 15:04:05 myhost prog: hi'')
   \<and> \<not> layoutA exampleLib ''Xyz  2 15:04:05 myhost prog: hi''
   \<and> \<not> layoutB exampleLib ''Xyz  2 15:04:05 myhost prog: hi''
   \<and> headerOffset exampleLib True ''Xyz  2 15:04:05 myhost prog: hi'' = Some 0
   \<and> (\<exists>m lg. decode exampleLib Map.empty 5 7 (None :: nat option) ''<13>Xyz  2 15:04:05 myhost prog: hi''
                 = Some (m, lg)
          \<and> Hostname m = [] \<and> Timestamp m = 0 \<and> lg = Some ''Xyz  2 15:04:05 myhost prog: hi'')"
proof -
  have pp: "parsePriority ''<13>Xyz  2 15:04:05 myhost prog: hi''
      = Some (True, 13, ''Xyz  2 15:04:05 myhost prog: hi'')"
    by (simp add: parsePriority_def at_def slice_def sliceFrom_def Atoi_def)
  have a: "\<not> layoutA exampleLib ''Xyz  2 15:04:05 myhost prog: hi''"
    by (simp add: layoutA_def)
  have b: "\<not> layoutB exampleLib ''Xyz  2 15:04:05 myhost prog: hi''"
    by (simp add: layoutB_def exampleLib_def)
  from C4_header_detection [OF pp, of exampleLib Map.empty 5 7 None] pp a b show ?thesis
    by (auto simp: headerOffset_spec_def)
qed

text \<open>
  Claim C5: the severity of every decoded message lies between 0 and 7, and a packet
  in which the decoder finds no priority is decoded with the default priority 13, that
  is severity 5 and facility 1. (Every packet but the empty one is decoded.)
\<close>

theorem C5_severity_and_default:
  "(pkt \<noteq> [] \<longrightarrow> (\<exists>m lg. decode lib tr now1 now2 src pkt = Some (m, lg)))
   \<and> (\<forall>m lg. decode lib tr now1 now2 src pkt = Some (m, lg) \<longrightarrow>
         0 \<le> Severity m \<and> Severity m \<le> 7
       \<and> (\<not> recognized pkt \<longrightarrow> Severity m = 5 \<and> Facility m = 1))"
proof (intro conjI allI impI)
  assume "pkt \<noteq> []"
  then show "\<exists>m lg. decode lib tr now1 now2 src pkt = Some (m, lg)" by (rule decode_total)
next
  fix m lg
  assume d: "decode lib tr now1 now2 src pkt = Some (m, lg)"
  from decode_priority [OF d] obtain h p r where pp: "parsePriority pkt = Some (h, p, r)"
    and s: "Severity m = p AND 7" and f: "Facility m = drop_bit 3 p" by blast
  from s severity_range [of p] show "0 \<le> Severity m" by simp
  from s severity_range [of p] show "Severity m \<le> 7" by simp
  {
    assume "\<not> recognized pkt"
    with parsePriority_recognized(1) [OF pp] have "\<not> h" by simp
    from parsePriority_recognized(2) [OF pp this] have "p = 13" by simp
    with s f show "Severity m = 5" "Facility m = 1" by (simp_all add: drop_bit_eq_div)
  }
qed

theorem C5_severity_witness:
  "\<not> recognized ''hello''
   \<and> (\<exists>m lg. decode exampleLib Map.empty 0 0 (None :: nat option) ''hello'' = Some (m, lg)
         \<and> Severity m = 5 \<and> Facility m = 1)"
proof -
  have r: "\<not> recognized ''hello''" by (simp add: recognized_def prefixToken_def)
  from C5_severity_and_default [of "''hello''" exampleLib Map.empty 0 0 "None :: nat option"] r
  show ?thesis by auto
qed

text \<open>
  Claim C6, as amended: the decoder finds a priority exactly in the packets that begin
  with \<^verbatim>\<open><\<close>, have the next \<^verbatim>\<open>>\<close> one to three bytes later, and have between the two a token
  that \<^verbatim>\<open>strconv.Atoi\<close> reads as a number that is not negative: decimal digits, with
  possibly a sign \<^verbatim>\<open>+\<close> before them, or \<^verbatim>\<open>-\<close> before zeros. Then the prefix is removed and
  the number is the priority. In every other packet nothing is removed and the
  priority is 13.
\<close>

theorem C6_priority_prefix:
  "(pkt \<noteq> [] \<longrightarrow> (\<exists>h p r. parsePriority pkt = Some (h, p, r)))
   \<and> (\<forall>h p r. parsePriority pkt = Some (h, p, r) \<longrightarrow>
         (h \<longleftrightarrow> recognized pkt)
       \<and> (\<not> h \<longrightarrow> p = 13 \<and> r = pkt)
       \<and> (h \<longrightarrow> (\<exists>tok. prefixToken pkt = Some tok \<and> pkt = CHR ''<'' # tok @ CHR ''>'' # r
                      \<and> Atoi tok = Some p \<and> 0 \<le> p)))"
  using parsePriority_total [of pkt] parsePriority_recognized [of pkt]
  by blast

theorem C6_priority_prefix_witness:
  "parsePriority ''<34>rest'' = Some (True, 34, ''rest'')
   \<and> recognized ''<34>rest''
   \<and> (\<exists>tok. prefixToken ''<34>rest'' = Some tok \<and> ''<34>rest'' = CHR ''<'' # tok @ CHR ''>'' # ''rest''
          \<and> Atoi tok = Some 34)"
proof -
  have e: "parsePriority ''<34>rest'' = Some (True, 34, ''rest'')"
    by (simp add: parsePriority_def at_def slice_def sliceFrom_def Atoi_def)
  from C6_priority_prefix [of "''<34>rest''"] e show ?thesis by simp
qed

text \<open>The tokens \<^verbatim>\<open>+5\<close> and \<^verbatim>\<open>-0\<close> are not unsigned digits, and the decoder reads both.\<close>

theorem C6_counterexample:
  "parsePriority ''<+5>x'' = Some (True, 5, ''x'') \<and> \<not> digits ''+5''
   \<and> parsePriority ''<-0>x'' = Some (True, 0, ''x'') \<and> \<not> digits ''-0''"
  by (simp add: parsePriority_def at_def slice_def sliceFrom_def Atoi_def digits_def isDigit_def)

text \<open>
  Claim C7: dispatch is short-circuiting. For every list of handlers and every message,
  the loop calls the handlers in order from the first; the first handler receives the
  message, each later one the value that the one before it returned; and once a handler
  has returned \<^verbatim>\<open>nil\<close> no later handler is called. (A dispatch that calls fewer handlers
  than there are has ended on a \<^verbatim>\<open>nil\<close>.)
\<close>

theorem C7_dispatch_short_circuits:
  assumes "passToHandlers hs m w = (cs, w')"
  shows "length cs \<le> length hs
       \<and> (hs \<noteq> [] \<longrightarrow> cs \<noteq> [] \<and> fst (hd cs) = m)
       \<and> (\<forall>i. Suc i < length cs \<longrightarrow> fst (cs ! Suc i) = snd (cs ! i))
       \<and> (\<forall>i < length cs. \<exists>u u'. (hs ! i) (fst (cs ! i)) u = (snd (cs ! i), u'))
       \<and> (\<forall>i < length cs. snd (cs ! i) = None \<longrightarrow> Suc i = length cs)
       \<and> (length cs < length hs \<longrightarrow> cs \<noteq> [] \<and> snd (last cs) = None)"
proof -
  have "length cs \<le> length hs" using assms by (rule calls_length)
  moreover have "hs \<noteq> [] \<longrightarrow> cs \<noteq> [] \<and> fst (hd cs) = m"
    using calls_first [OF assms] by blast
  moreover have "\<forall>i. Suc i < length cs \<longrightarrow> fst (cs ! Suc i) = snd (cs ! i)"
    using calls_chain [OF assms] by blast
  moreover have "\<forall>i < length cs. \<exists>u u'. (hs ! i) (fst (cs ! i)) u = (snd (cs ! i), u')"
    using calls_handler [OF assms] by blast
  moreover have "\<forall>i < length cs. snd (cs ! i) = None \<longrightarrow> Suc i = length cs"
    using calls_stop [OF assms] by blast
  moreover have "length cs < length hs \<longrightarrow> cs \<noteq> [] \<and> snd (last cs) = None"
    using calls_short [OF assms] by blast
  ultimately show ?thesis by blast
qed

text \<open>The second of three handlers returns \<^verbatim>\<open>nil\<close>: the third one is not called.\<close>

theorem C7_dispatch_witness:
  "passToHandlers [keep, discard, keep] (Some msgA) (0::nat)
     = ([(Some msgA, Some msgA), (Some msgA, None)], 2)
   \<and> length [(Some msgA, Some msgA), (Some msgA, None :: nat Message option)] \<le> length [keep, discard, keep :: (nat, nat) Handler]
   \<and> fst ([(Some msgA, Some msgA), (Some msgA, None)] ! 1) = snd ([(Some msgA, Some msgA), (Some msgA, None)] ! 0)
   \<and> snd (last [(Some msgA, Some msgA), (Some msgA, None)]) = None"
proof -
  have e: "passToHandlers [keep, discard, keep] (Some msgA) (0::nat)
     = ([(Some msgA, Some msgA), (Some msgA, None)], 2)"
    by (simp add: keep_def discard_def)
  from C7_dispatch_short_circuits [OF e] e show ?thesis by simp
qed

text \<open>
  Claim C8, as amended: when the logger returns from every call of \<^verbatim>\<open>Fatalln\<close>, or when no
  \<^verbatim>\<open>Close\<close> fails, \<open>Shutdown\<close> sets \<^verbatim>\<open>s.shutdown\<close>, calls \<^verbatim>\<open>Close\<close> on every listener of
  \<^verbatim>\<open>s.conns\<close> in order, each failed \<^verbatim>\<open>Close\<close> followed by \<^verbatim>\<open>Fatalln\<close> with its error, then
  dispatches \<^verbatim>\<open>nil\<close> to the handlers in order under the short-circuit rule, and then
  empties \<^verbatim>\<open>s.conns\<close> and \<^verbatim>\<open>s.handlers\<close>.
\<close>

theorem C8_shutdown_logger_returns:
  assumes "(\<forall>e u. \<exists>u'. l s e u = Returns u') \<or> (\<forall>c u. fst (Close c u) = None)"
  shows "\<exists>rs w1 cs w2.
           length rs = length (conns s)
         \<and> closeAll Close (l s) (conns s) w = (concat (map2 closeEvents (conns s) rs), Returns w1)
         \<and> passToHandlers (handlers s) None w1 = (cs, w2)
         \<and> (handlers s \<noteq> [] \<longrightarrow> cs \<noteq> [] \<and> fst (hd cs) = None)
         \<and> (\<forall>i. Suc i < length cs \<longrightarrow> fst (cs ! Suc i) = snd (cs ! i))
         \<and> (\<forall>i < length cs. snd (cs ! i) = None \<longrightarrow> Suc i = length cs)
         \<and> (length cs < length (handlers s) \<longrightarrow> cs \<noteq> [] \<and> snd (last cs) = None)
         \<and> Shutdown Close s w =
             (s\<lparr>shutdown := True, conns := [], handlers := []\<rparr>,
              concat (map2 closeEvents (conns s) rs), cs, Returns w2)"
proof -
  from closeAll_returns [OF assms, of "conns s" w]
  obtain rs w1 where ca: "closeAll Close (l s) (conns s) w
        = (concat (map2 closeEvents (conns s) rs), Returns w1)"
    and len: "length rs = length (conns s)" by blast
  obtain cs w2 where p: "passToHandlers (handlers s) None w1 = (cs, w2)"
    by (cases "passToHandlers (handlers s) None w1")
  have "Shutdown Close s w =
      (s\<lparr>shutdown := True, conns := [], handlers := []\<rparr>,
       concat (map2 closeEvents (conns s) rs), cs, Returns w2)"
    using ca p by (simp add: Shutdown_def)
  moreover have "handlers s \<noteq> [] \<longrightarrow> cs \<noteq> [] \<and> fst (hd cs) = None"
    using calls_first [OF p] by blast
  moreover have "\<forall>i. Suc i < length cs \<longrightarrow> fst (cs ! Suc i) = snd (cs ! i)"
    using calls_chain [OF p] by blast
  moreover have "\<forall>i < length cs. snd (cs ! i) = None \<longrightarrow> Suc i = length cs"
    using calls_stop [OF p] by blast
  moreover have "length cs < length (handlers s) \<longrightarrow> cs \<noteq> [] \<and> snd (last cs) = None"
    using calls_short [OF p] by blast
  ultimately show ?thesis using ca len p by blast
qed

lemma Shutdown_server0_report:
  "Shutdown closeOdd (server0 report) 0 =
     ((server0 report)\<lparr>shutdown := True, conns := [], handlers := []\<rparr>,
      [CloseCall 1 (Some 1), FatallnCall 1, CloseCall 2 None],
      [(None, Some msgA), (Some msgA, None)], Returns 5)"
  by (simp add: Shutdown_def server0_def closeOdd_def report_def answer_def discard_def)

theorem C8_shutdown_witness:
  "(\<exists>rs. length rs = length (conns (server0 report))
        \<and> fst (snd (Shutdown closeOdd (server0 report) 0))
            = concat (map2 closeEvents (conns (server0 report)) rs))
   \<and> Shutdown closeOdd (server0 report) 0 =
     ((server0 report)\<lparr>shutdown := True, conns := [], handlers := []\<rparr>,
      [CloseCall 1 (Some 1), FatallnCall 1, CloseCall 2 None],
      [(None, Some msgA), (Some msgA, None)], Returns 5)"
proof -
  have h: "(\<forall>e u. \<exists>u'. l (server0 report) e u = Returns u')
      \<or> (\<forall>c u. fst (closeOdd c u) = None)"
    by (simp add: server0_def report_def)
  from C8_shutdown_logger_returns [OF h, of 0]
  obtain rs w1 cs w2 where "length rs = length (conns (server0 report))"
    and "Shutdown closeOdd (server0 report) 0 =
             ((server0 report)\<lparr>shutdown := True, conns := [], handlers := []\<rparr>,
              concat (map2 closeEvents (conns (server0 report)) rs), cs, Returns w2)"
    by blast
  then have "length rs = length (conns (server0 report))
        \<and> fst (snd (Shutdown closeOdd (server0 report) 0))
            = concat (map2 closeEvents (conns (server0 report)) rs)"
    by simp
  then show ?thesis using Shutdown_server0_report by blast
qed

text \<open>
  With a logger that halts the application, as the one of \<^verbatim>\<open>NewServer\<close> does, the first
  failed \<^verbatim>\<open>Close\<close> ends \<open>Shutdown\<close>: the second listener is not closed, no handler is
  called, and the two lists are as they were.
\<close>

theorem C8_counterexample:
  "fst (snd (Shutdown closeOdd (server0 halt) 0)) = [CloseCall 1 (Some 1), FatallnCall 1]
   \<and> fst (snd (snd (Shutdown closeOdd (server0 halt) 0))) = []
   \<and> snd (snd (snd (Shutdown closeOdd (server0 halt) 0))) = Exits 2
   \<and> conns (fst (Shutdown closeOdd (server0 halt) 0)) = [1, 2]
   \<and> length (handlers (fst (Shutdown closeOdd (server0 halt) 0))) = 3"
  by (simp add: Shutdown_def server0_def closeOdd_def halt_def)

text \<open>
  Claim C9: for every body, the decoder removes the bytes NUL, CR and LF from its end
  and splits what is left at the first rune that is no letter, no number and not in
  \<^verbatim>\<open>s.tagrunes\<close>: the bytes before that rune are the tag, the bytes from it on the content;
  without such a rune the tag is empty and the content is the whole trimmed body. (The
  message that the decoder passes has an empty tag, as \<^verbatim>\<open>new(Message)\<close> gives it.)
\<close>

theorem C9_trim_then_strict_split:
  assumes "Tag m = []"
  shows "\<exists>m'. parseMsg lib tr m body = Some m'
     \<and> (let msg = rev (dropWhile (\<lambda>b. b = CHR 0x00 \<or> b = CHR 0x0D \<or> b = CHR 0x0A) (rev body)) in
        case find (\<lambda>(i, r). isNotAlnum lib tr r) (runesFrom 0 msg) of
          None \<Rightarrow> Tag m' = [] \<and> Content m' = msg
        | Some (i, r) \<Rightarrow> Tag m' = take i msg \<and> Content m' = drop i msg)"
proof -
  let ?msg = "rev (dropWhile (\<lambda>b. b = CHR 0x00 \<or> b = CHR 0x0D \<or> b = CHR 0x0A) (rev body))"
  have trim: "TrimRightFunc body isNulCrLf = ?msg" by (rule TrimRightFunc_isNulCrLf)
  obtain m1 where s: "strictSplit lib tr m ?msg = Some m1"
    using strictSplit_total by blast
  obtain m' where l: "looseSplit lib m1 ?msg = Some m'"
    using looseSplit_total by blast
  from s l have p: "parseMsg lib tr m body = Some m'"
    by (simp add: parseMsg_def trim)
  from looseSplit_keeps [OF l] have k: "Tag m' = Tag m1" "Content m' = Content m1" by simp_all
  have "case find (\<lambda>(i, r). isNotAlnum lib tr r) (runesFrom 0 ?msg) of
          None \<Rightarrow> Tag m' = [] \<and> Content m' = ?msg
        | Some (i, r) \<Rightarrow> Tag m' = take i ?msg \<and> Content m' = drop i ?msg"
    using s k assms by (auto simp: strictSplit_find split: option.splits)
  with p show ?thesis by (simp add: Let_def)
qed

text \<open>The body \<^verbatim>\<open>text\r\n\0\<close> has the content \<^verbatim>\<open>text\<close>; the body \<^verbatim>\<open>su[7]: ok\n\<close> splits before \<^verbatim>\<open>[\<close>.\<close>

theorem C9_trim_witness:
  "(\<exists>m'. parseMsg exampleLib Map.empty (newMessage :: nat Message) (''text'' @ [CHR 0x0D, CHR 0x0A, CHR 0x00]) = Some m'
      \<and> Tag m' = [] \<and> Content m' = ''text'')
   \<and> (\<exists>m'. parseMsg exampleLib Map.empty (newMessage :: nat Message) (''su[7]: ok'' @ [CHR 0x0A]) = Some m'
      \<and> Tag m' = ''su'' \<and> Content m' = ''[7]: ok'')"
proof -
  have t: "Tag (newMessage :: nat Message) = []" by (simp add: newMessage_def)
  from C9_trim_then_strict_split [OF t, of exampleLib Map.empty "''text'' @ [CHR 0x0D, CHR 0x0A, CHR 0x00]"]
  have a: "\<exists>m'. parseMsg exampleLib Map.empty (newMessage :: nat Message) (''text'' @ [CHR 0x0D, CHR 0x0A, CHR 0x00]) = Some m'
      \<and> Tag m' = [] \<and> Content m' = ''text''"
    by (simp add: runesFrom_ascii isNotAlnum_def exampleLib_def)
  from C9_trim_then_strict_split [OF t, of exampleLib Map.empty "''su[7]: ok'' @ [CHR 0x0A]"]
  have b: "\<exists>m'. parseMsg exampleLib Map.empty (newMessage :: nat Message) (''su[7]: ok'' @ [CHR 0x0A]) = Some m'
      \<and> Tag m' = ''su'' \<and> Content m' = ''[7]: ok''"
    by (simp add: runesFrom_ascii isNotAlnum_def exampleLib_def)
  from a b show ?thesis by simp
qed

text \<open>
  Claim C10, as amended: when the handlers are dispatched with \<^verbatim>\<open>nil\<close>, the first handler is
  called with \<^verbatim>\<open>nil\<close>; the dispatch ends before the last handler only after a handler has
  returned \<^verbatim>\<open>nil\<close>; and when a handler returns a message, the next handler is called with
  that message. (A later handler receives what the handler before it returned, which
  need not be that message.)
\<close>

theorem C10_nil_dispatch:
  assumes "passToHandlers hs None w = (cs, w')"
  shows "(hs \<noteq> [] \<longrightarrow> cs \<noteq> [] \<and> fst (hd cs) = None)
       \<and> (length cs < length hs \<longrightarrow> cs \<noteq> [] \<and> snd (last cs) = None)
       \<and> (\<forall>i m'. i < length cs \<and> snd (cs ! i) = Some m' \<and> Suc i < length hs
             \<longrightarrow> Suc i < length cs \<and> fst (cs ! Suc i) = Some m')"
proof -
  have "hs \<noteq> [] \<longrightarrow> cs \<noteq> [] \<and> fst (hd cs) = None"
    using calls_first [OF assms] by blast
  moreover have "length cs < length hs \<longrightarrow> cs \<noteq> [] \<and> snd (last cs) = None"
    using calls_short [OF assms] by blast
  moreover have "Suc i < length cs \<and> fst (cs ! Suc i) = Some m'"
    if "i < length cs" "snd (cs ! i) = Some m'" "Suc i < length hs" for i m'
  proof -
    from that have "Suc i < length cs"
      using calls_go_on [OF assms, of i] by simp
    with calls_chain [OF assms this] that show ?thesis by simp
  qed
  ultimately show ?thesis by blast
qed

theorem C10_nil_dispatch_witness:
  "passToHandlers [answer msgA, keep] None (0::nat) = ([(None, Some msgA), (Some msgA, Some msgA)], 2)
   \<and> fst (hd [(None :: nat Message option, Some msgA), (Some msgA, Some msgA)]) = None
   \<and> fst ([(None, Some msgA), (Some msgA, Some msgA)] ! Suc 0) = Some msgA"
proof -
  have e: "passToHandlers [answer msgA, keep] None (0::nat)
      = ([(None, Some msgA), (Some msgA, Some msgA)], 2)"
    by (simp add: keep_def answer_def)
  from C10_nil_dispatch [OF e] e show ?thesis by simp
qed

text \<open>
  The first handler answers \<^verbatim>\<open>nil\<close> with the message \<open>msgA\<close>, the second one returns \<open>msgB\<close>:
  the third handler, which comes after the first, receives \<open>msgB\<close> and not \<open>msgA\<close>.
\<close>

theorem C10_counterexample:
  "passToHandlers [answer msgA, answer msgB, keep] None (0::nat)
     = ([(None, Some msgA), (Some msgA, Some msgB), (Some msgB, Some msgB)], 3)
   \<and> msgB \<noteq> msgA"
  by (simp add: keep_def answer_def msgA_def msgB_def newMessage_def)

end
